theory Spec2Isabelle
  imports Complex_Main
begin

section \<open>Data model of the stake pool rebalancer\<close>

text \<open>
  The embedding follows the interactive rebalancer (the latest revision of the command loop,
  with the \<open>+\<close> and \<open>-\<close> commands). The fields of type \<open>number\<close> have a type
  parameter, so that a state can hold exact reals or IEEE doubles.

  For the commands and for rebalance a \<open>number\<close> is a real number: sums, differences,
  quotients and comparisons are exact, and \<open>Math.round\<close> is \<open>\<lfloor>x + 1/2\<rfloor>\<close>. The values
  \<open>NaN\<close> and \<open>Infinity\<close> are not reals: a \<open>NaN\<close> amount from \<open>parseFloat\<close> is the
  value \<open>None\<close> of an optional amount, and a \<open>NaN\<close> index from \<open>parseInt\<close> takes the
  branches of a negative index (every comparison with it is false and the array read is
  \<open>undefined\<close>), so an index is an \<open>int\<close>.

  The feasibility check decides at a boundary that the rounding of a sum can cross, so
  \<open>validate\<close> is modelled on states of doubles, with the additions, subtractions and
  comparisons of IEEE 754 (round to nearest, ties to even, infinities and \<open>NaN\<close>).

  The optional fields \<open>targetBalance?\<close> and \<open>action?\<close> of the source are options.
\<close>

datatype Action = Remove | Keep | Add

record 'n ValidatorRec =
  voteAccount :: string
  name :: "string option"
  stakeAccount :: string
  activeBalance :: 'n
  activeBalanceLamports :: string
  transientStakeAccount :: string
  transientBalance :: 'n
  transientBalanceLamports :: string
  targetBalance :: "'n option"
  action :: "Action option"

record 'n EditRec =
  validators :: "'n ValidatorRec list"
  newValidators :: "'n ValidatorRec list"
  reserveAccount :: string
  reserveBalance :: 'n

type_synonym ValidatorData = "real ValidatorRec"

type_synonym EditState = "real EditRec"

text \<open>What a command prints, one constructor for each message of the source.\<close>

datatype Message =
    InvalidValidatorNumber
  | CannotAddToRemoved
  | CannotDecreaseRemoved
  | CannotGoBelowZero
  | InvalidNumberOrAmount
  | ValidatorAlreadyExists
  | InvalidVoteAccount
  | AlreadyInPool
  | Added
  | NoValidatorsMarked
  | NoActiveValidators
  | Redistributed

text \<open>The error kinds of the specification, and the kind each printed message stands for.\<close>

datatype CoreError = InvalidIndex | InvalidOperation | DuplicateValidator

fun errorKind :: "Message \<Rightarrow> CoreError option" where
  "errorKind InvalidValidatorNumber = Some InvalidIndex"
| "errorKind InvalidNumberOrAmount = Some InvalidIndex"
| "errorKind CannotAddToRemoved = Some InvalidOperation"
| "errorKind CannotDecreaseRemoved = Some InvalidOperation"
| "errorKind CannotGoBelowZero = Some InvalidOperation"
| "errorKind ValidatorAlreadyExists = Some DuplicateValidator"
| "errorKind AlreadyInPool = Some DuplicateValidator"
| "errorKind InvalidVoteAccount = None"
| "errorKind Added = None"
| "errorKind NoValidatorsMarked = None"
| "errorKind NoActiveValidators = None"
| "errorKind Redistributed = None"

text \<open>\<open>v.targetBalance ?? v.activeBalance\<close> and \<open>v.targetBalance ?? 0\<close>.\<close>

definition tgt :: "ValidatorData \<Rightarrow> real" where
  "tgt v = (case targetBalance v of Some t \<Rightarrow> t | None \<Rightarrow> activeBalance v)"

definition tgt0 :: "ValidatorData \<Rightarrow> real" where
  "tgt0 v = (case targetBalance v of Some t \<Rightarrow> t | None \<Rightarrow> 0)"

text \<open>\<open>xs[idx]\<close>: \<open>undefined\<close> outside the array.\<close>

definition lookupIdx :: "'a list \<Rightarrow> int \<Rightarrow> 'a option" where
  "lookupIdx xs idx = (if 0 \<le> idx \<and> idx < int (length xs) then Some (xs ! nat idx) else None)"

definition Math_round :: "real \<Rightarrow> int" where
  "Math_round x = \<lfloor>x + 1 / 2\<rfloor>"

definition roundToLamports :: "real \<Rightarrow> real" where
  "roundToLamports sol = of_int (Math_round (sol * 1000000000)) / 1000000000"

section \<open>The commands of the edit loop\<close>

text \<open>
  Each command of \<open>main\<close> is a function from the state to the message it prints (if any)
  and the state it leaves. The objects of \<open>state.validators\<close> are mutated in place; the
  model writes the changed record back at its index.
\<close>

definition markRemoved :: "int \<Rightarrow> EditState \<Rightarrow> Message option \<times> EditState" where
  "markRemoved idx state =
     (let v = lookupIdx (validators state) idx in
      if v \<noteq> None \<and> 0 \<le> idx then
        (None, state\<lparr>validators := (validators state)
                 [nat idx := (the v)\<lparr>targetBalance := Some 0, action := Some Remove\<rparr>]\<rparr>)
      else (Some InvalidValidatorNumber, state))"

definition undoRemoved :: "int \<Rightarrow> EditState \<Rightarrow> Message option \<times> EditState" where
  "undoRemoved idx state =
     (let v = lookupIdx (validators state) idx in
      if v \<noteq> None \<and> 0 \<le> idx then
        (None, state\<lparr>validators := (validators state)
                 [nat idx := (the v)\<lparr>targetBalance := Some (activeBalance (the v)),
                                       action := Some Keep\<rparr>]\<rparr>)
      else (None, state))"

definition setTarget :: "int \<Rightarrow> real option \<Rightarrow> EditState \<Rightarrow> Message option \<times> EditState" where
  "setTarget idx amount state =
     (let v = lookupIdx (validators state) idx in
      if v \<noteq> None \<and> 0 \<le> idx \<and> amount \<noteq> None then
        (None, state\<lparr>validators := (validators state)
                 [nat idx := (the v)\<lparr>targetBalance := amount\<rparr>]\<rparr>)
      else if int (length (validators state)) \<le> idx
            \<and> idx < int (length (validators state)) + int (length (newValidators state))
            \<and> amount \<noteq> None then
        (let newIdx = idx - int (length (validators state));
             nv = lookupIdx (newValidators state) newIdx in
         if nv \<noteq> None then
           (None, state\<lparr>newValidators := (newValidators state)
                    [nat newIdx := (the nv)\<lparr>targetBalance := amount\<rparr>]\<rparr>)
         else (None, state))
      else (None, state))"

definition addToTarget :: "int \<Rightarrow> real option \<Rightarrow> EditState \<Rightarrow> Message option \<times> EditState" where
  "addToTarget idx addAmount state =
     (let v = lookupIdx (validators state) idx in
      if v \<noteq> None \<and> 0 \<le> idx \<and> addAmount \<noteq> None then
        (if action (the v) = Some Remove then (Some CannotAddToRemoved, state)
         else
           (let current = tgt (the v) in
            (None, state\<lparr>validators := (validators state)
                     [nat idx := (the v)\<lparr>targetBalance :=
                        Some (roundToLamports (current + the addAmount))\<rparr>]\<rparr>)))
      else if int (length (validators state)) \<le> idx
            \<and> idx < int (length (validators state)) + int (length (newValidators state))
            \<and> addAmount \<noteq> None then
        (let newIdx = idx - int (length (validators state));
             nv = lookupIdx (newValidators state) newIdx in
         if nv \<noteq> None then
           (let current = tgt0 (the nv) in
            (None, state\<lparr>newValidators := (newValidators state)
                     [nat newIdx := (the nv)\<lparr>targetBalance :=
                        Some (roundToLamports (current + the addAmount))\<rparr>]\<rparr>))
         else (None, state))
      else (Some InvalidNumberOrAmount, state))"

definition subtractFromTarget ::
  "int \<Rightarrow> real option \<Rightarrow> EditState \<Rightarrow> Message option \<times> EditState" where
  "subtractFromTarget idx subAmount state =
     (let v = lookupIdx (validators state) idx in
      if v \<noteq> None \<and> 0 \<le> idx \<and> subAmount \<noteq> None then
        (if action (the v) = Some Remove then (Some CannotDecreaseRemoved, state)
         else
           (let current = tgt (the v);
                newTarget = roundToLamports (current - the subAmount) in
            if newTarget < 0 then (Some CannotGoBelowZero, state)
            else (None, state\<lparr>validators := (validators state)
                          [nat idx := (the v)\<lparr>targetBalance := Some newTarget\<rparr>]\<rparr>)))
      else if int (length (validators state)) \<le> idx
            \<and> idx < int (length (validators state)) + int (length (newValidators state))
            \<and> subAmount \<noteq> None then
        (let newIdx = idx - int (length (validators state));
             nv = lookupIdx (newValidators state) newIdx in
         if nv \<noteq> None then
           (let current = tgt0 (the nv);
                newTarget = roundToLamports (current - the subAmount) in
            if newTarget < 0 then (Some CannotGoBelowZero, state)
            else (None, state\<lparr>newValidators := (newValidators state)
                          [nat newIdx := (the nv)\<lparr>targetBalance := Some newTarget\<rparr>]\<rparr>))
         else (None, state))
      else (Some InvalidNumberOrAmount, state))"

text \<open>
  The \<open>a\<close> command. The chain lookup \<open>validateVoteAccount\<close> (whether the address is
  valid, and the vote account it resolves to) and the name service \<open>fetchValidatorName\<close>
  are outside the program and are parameters.
\<close>

definition hasVoteAccount :: "string \<Rightarrow> EditState \<Rightarrow> bool" where
  "hasVoteAccount a state =
     (list_ex (\<lambda>v. voteAccount v = a) (validators state)
      \<or> list_ex (\<lambda>v. voteAccount v = a) (newValidators state))"

definition addedValidator :: "string \<Rightarrow> string option \<Rightarrow> ValidatorData" where
  "addedValidator toAdd validatorName =
     \<lparr>voteAccount = toAdd, name = validatorName, stakeAccount = '''',
      activeBalance = 0, activeBalanceLamports = ''0'',
      transientStakeAccount = '''', transientBalance = 0,
      transientBalanceLamports = ''0'', targetBalance = Some 0, action = Some Add\<rparr>"

definition addValidator ::
  "(string \<Rightarrow> bool \<times> string) \<Rightarrow> (string \<Rightarrow> string option) \<Rightarrow> string \<Rightarrow> EditState
     \<Rightarrow> Message option \<times> EditState" where
  "addValidator validateVoteAccount fetchValidatorName input state =
     (if hasVoteAccount input state then (Some ValidatorAlreadyExists, state)
      else
        (let result = validateVoteAccount input in
         if \<not> fst result then (Some InvalidVoteAccount, state)
         else
           (let toAdd = snd result in
            if hasVoteAccount toAdd state then (Some AlreadyInPool, state)
            else
              (Some Added,
               state\<lparr>newValidators := newValidators state
                        @ [addedValidator toAdd (fetchValidatorName toAdd)]\<rparr>))))"

section \<open>Automatic rebalance\<close>

text \<open>
  \<open>activeValidators\<close> is a new array holding references to the objects of
  \<open>state.validators\<close>; a reference is the index of the object in \<open>state.validators\<close>,
  which is the store the two loops write to. The comparator orders by target, and the sort
  is stable.
\<close>

definition removedStake :: "EditState \<Rightarrow> real" where
  "removedStake state =
     foldl (\<lambda>s v. s + activeBalance v) 0
       (filter (\<lambda>v. action v = Some Remove) (validators state))"

definition activeIndices :: "ValidatorData list \<Rightarrow> nat list" where
  "activeIndices vs = filter (\<lambda>i. action (vs ! i) \<noteq> Some Remove) [0..<length vs]"

definition activeValidators :: "ValidatorData list \<Rightarrow> nat list" where
  "activeValidators vs = sort_key (\<lambda>i. tgt (vs ! i)) (activeIndices vs)"

text \<open>The first loop, with its \<open>break\<close> when nothing remains.\<close>

fun distribute :: "real \<Rightarrow> nat list \<Rightarrow> ValidatorData list \<Rightarrow> real \<Rightarrow> ValidatorData list \<times> real"
where
  "distribute targetPerValidator [] vs remaining = (vs, remaining)"
| "distribute targetPerValidator (i # rest) vs remaining =
     (if remaining \<le> 0 then (vs, remaining)
      else
        (let currentTarget = tgt (vs ! i);
             deficit = targetPerValidator - currentTarget in
         if 0 < deficit then
           (let toAdd = min deficit remaining in
            distribute targetPerValidator rest
              (vs[i := (vs ! i)\<lparr>targetBalance := Some (roundToLamports (currentTarget + toAdd))\<rparr>])
              (roundToLamports (remaining - toAdd)))
         else distribute targetPerValidator rest vs remaining))"

text \<open>The second loop: an equal share of what is left for every active validator.\<close>

fun spread :: "real \<Rightarrow> nat list \<Rightarrow> ValidatorData list \<Rightarrow> ValidatorData list" where
  "spread perValidator [] vs = vs"
| "spread perValidator (i # rest) vs =
     spread perValidator rest
       (vs[i := (vs ! i)\<lparr>targetBalance := Some (roundToLamports (tgt (vs ! i) + perValidator))\<rparr>])"

definition autoRebalance :: "EditState \<Rightarrow> Message option \<times> EditState" where
  "autoRebalance state =
     (if removedStake state = 0 then (Some NoValidatorsMarked, state)
      else
        (let active = activeValidators (validators state) in
         if length active = 0 then (Some NoActiveValidators, state)
         else
           (let totalActiveStake = foldl (\<lambda>s i. s + tgt (validators state ! i)) 0 active;
                newTotal = totalActiveStake + removedStake state;
                targetPerValidator = newTotal / real (length active);
                (vs1, remaining) =
                  distribute targetPerValidator active (validators state) (removedStake state);
                vs2 = (if 0 < remaining
                       then spread (remaining / real (length active)) active vs1
                       else vs1)
            in (Some Redistributed, state\<lparr>validators := vs2\<rparr>))))"

section \<open>IEEE double arithmetic\<close>

text \<open>
  A double is a finite value (a real that the format can represent; the two zeros are not
  told apart, as no operation used here does), an infinity or \<open>NaN\<close>.
\<close>

datatype double = Finite real | PosInf | NegInf | NaN

text \<open>
  \<open>pow2 e\<close> is \<open>2\<^sup>e\<close>. \<open>exponentOf x\<close>, for \<open>0 < x\<close>, is the exponent of the binade
  of \<open>x\<close>: the \<open>e\<close> with \<open>2\<^sup>e \<le> x < 2\<^sup>e\<^sup>+\<^sup>1\<close>, found by counting up or down from 0, and
  not below -1022 (the subnormal range) nor above 1024 (overflow); the bounds on the count
  are the exponent range of the format, so the count is exact.
\<close>

definition pow2 :: "int \<Rightarrow> real" where
  "pow2 e = (if 0 \<le> e then 2 ^ nat e else 1 / 2 ^ nat (- e))"

fun expUp :: "nat \<Rightarrow> int \<Rightarrow> real \<Rightarrow> int" where
  "expUp 0 e x = e"
| "expUp (Suc n) e x = (if pow2 (e + 1) \<le> x then expUp n (e + 1) x else e)"

fun expDown :: "nat \<Rightarrow> int \<Rightarrow> real \<Rightarrow> int" where
  "expDown 0 e x = e"
| "expDown (Suc n) e x = (if x < pow2 e then expDown n (e - 1) x else e)"

definition exponentOf :: "real \<Rightarrow> int" where
  "exponentOf x = (if 1 \<le> x then expUp 1024 0 x else expDown 1022 0 x)"

text \<open>Rounding to the nearest integer, a tie to the even one.\<close>

definition roundHalfEven :: "real \<Rightarrow> int" where
  "roundHalfEven m =
     (let f = \<lfloor>m\<rfloor>; d = m - of_int f
      in if d < 1 / 2 then f else if 1 / 2 < d then f + 1 else if even f then f else f + 1)"

text \<open>
  The double nearest to a real: 53 significant bits (the quantum is \<open>2\<^sup>e\<^sup>-\<^sup>5\<^sup>2\<close>), ties to
  even, and an infinity when the rounded magnitude reaches \<open>2\<^sup>1\<^sup>0\<^sup>2\<^sup>4\<close>. It is what a
  numeric literal, \<open>parseFloat\<close> and \<open>JSON.parse\<close> give for a decimal, and what every
  arithmetic operation gives for its exact result.
\<close>

definition roundDouble :: "real \<Rightarrow> double" where
  "roundDouble x =
     (if x = 0 then Finite 0
      else
        (let e = exponentOf \<bar>x\<bar>;
             q = pow2 (e - 52);
             r = of_int (roundHalfEven (\<bar>x\<bar> / q)) * q
         in if pow2 1024 \<le> r then (if 0 < x then PosInf else NegInf)
            else Finite (if 0 < x then r else - r)))"

text \<open>\<open>a + b\<close>, \<open>-a\<close>, \<open>a - b\<close> and \<open>a < b\<close> on doubles; \<open>a > b\<close> is \<open>dless b a\<close>.\<close>

fun dadd :: "double \<Rightarrow> double \<Rightarrow> double" where
  "dadd NaN b = NaN"
| "dadd a NaN = NaN"
| "dadd PosInf NegInf = NaN"
| "dadd NegInf PosInf = NaN"
| "dadd PosInf b = PosInf"
| "dadd a PosInf = PosInf"
| "dadd NegInf b = NegInf"
| "dadd a NegInf = NegInf"
| "dadd (Finite x) (Finite y) = roundDouble (x + y)"

fun dneg :: "double \<Rightarrow> double" where
  "dneg (Finite x) = Finite (- x)"
| "dneg PosInf = NegInf"
| "dneg NegInf = PosInf"
| "dneg NaN = NaN"

definition dsub :: "double \<Rightarrow> double \<Rightarrow> double" where
  "dsub a b = dadd a (dneg b)"

fun dless :: "double \<Rightarrow> double \<Rightarrow> bool" where
  "dless (Finite x) (Finite y) = (x < y)"
| "dless (Finite x) PosInf = True"
| "dless NegInf (Finite y) = True"
| "dless NegInf PosInf = True"
| "dless a b = False"

section \<open>Feasibility check\<close>

text \<open>
  \<open>validate\<close> prints which rule failed and returns whether the plan is feasible; the
  model is the returned boolean. \<open>tgtD\<close> and \<open>tgt0D\<close> are
  \<open>v.targetBalance ?? v.activeBalance\<close> and \<open>v.targetBalance ?? 0\<close> on doubles.
\<close>

definition tgtD :: "double ValidatorRec \<Rightarrow> double" where
  "tgtD v = (case targetBalance v of Some t \<Rightarrow> t | None \<Rightarrow> activeBalance v)"

definition tgt0D :: "double ValidatorRec \<Rightarrow> double" where
  "tgt0D v = (case targetBalance v of Some t \<Rightarrow> t | None \<Rightarrow> Finite 0)"

definition validate :: "double EditRec \<Rightarrow> bool" where
  "validate state =
     (let totalCurrent = foldl (\<lambda>s v. dadd s (activeBalance v)) (Finite 0) (validators state);
          totalTarget = foldl (\<lambda>s v. dadd s (tgtD v)) (Finite 0)
            (filter (\<lambda>v. action v \<noteq> Some Remove) (validators state));
          newValidatorStake = foldl (\<lambda>s v. dadd s (tgt0D v)) (Finite 0) (newValidators state);
          totalWithNew = dadd totalTarget newValidatorStake;
          decreasedStake = foldl
            (\<lambda>s v. let diff = dsub (activeBalance v) (tgtD v)
                   in dadd s (if dless (Finite 0) diff then diff else Finite 0)) (Finite 0)
            (filter (\<lambda>v. action v \<noteq> Some Remove) (validators state));
          removedStake = foldl (\<lambda>s v. dadd s (activeBalance v)) (Finite 0)
            (filter (\<lambda>v. action v = Some Remove) (validators state));
          availableReserve = dadd (dadd (reserveBalance state) removedStake) decreasedStake;
          activeValidatorCount =
            length (filter (\<lambda>v. action v \<noteq> Some Remove) (validators state))
            + length (newValidators state);
          minStaked = Finite (real activeValidatorCount);
          maxStaked = dadd totalCurrent (reserveBalance state);
          increasedStake = foldl
            (\<lambda>s v. let diff = dsub (tgtD v) (activeBalance v)
                   in dadd s (if dless (Finite 0) diff then diff else Finite 0)) (Finite 0)
            (filter (\<lambda>v. action v \<noteq> Some Remove) (validators state));
          totalNeeded = dadd increasedStake newValidatorStake
      in if dless (dadd availableReserve (roundDouble (1 / 100))) totalNeeded then False
         else if dless totalWithNew (dsub minStaked (roundDouble (1 / 100))) then False
         else True)"

section \<open>The quantities of the specification's feasibility rule\<close>

text \<open>
  These follow the wording of the specification, not the code: sums over the validators
  that are not removed and over the proposed ones, with \<open>max 0\<close> for the positive part.
  The target of a record is what the code reads for it.
\<close>

definition spec_removedStake :: "EditState \<Rightarrow> real" where
  "spec_removedStake s =
     (\<Sum>v\<leftarrow>filter (\<lambda>v. action v = Some Remove) (validators s). activeBalance v)"

definition spec_decreasedStake :: "EditState \<Rightarrow> real" where
  "spec_decreasedStake s =
     (\<Sum>v\<leftarrow>filter (\<lambda>v. action v \<noteq> Some Remove) (validators s).
        max 0 (activeBalance v - tgt v))"

definition spec_increasedStake :: "EditState \<Rightarrow> real" where
  "spec_increasedStake s =
     (\<Sum>v\<leftarrow>filter (\<lambda>v. action v \<noteq> Some Remove) (validators s).
        max 0 (tgt v - activeBalance v))
     + (\<Sum>v\<leftarrow>newValidators s. tgt0 v)"

definition spec_totalTarget :: "EditState \<Rightarrow> real" where
  "spec_totalTarget s =
     (\<Sum>v\<leftarrow>filter (\<lambda>v. action v \<noteq> Some Remove) (validators s). tgt v)
     + (\<Sum>v\<leftarrow>newValidators s. tgt0 v)"

definition spec_availableReserve :: "EditState \<Rightarrow> real" where
  "spec_availableReserve s = reserveBalance s + spec_removedStake s + spec_decreasedStake s"

definition spec_minimumRequired :: "EditState \<Rightarrow> real" where
  "spec_minimumRequired s =
     real (length (filter (\<lambda>v. action v \<noteq> Some Remove) (validators s))
           + length (newValidators s))"









text \<open>
  A state of finite doubles read as a state of exact reals, to evaluate the rule as the
  claim words it. (An infinity or a \<open>NaN\<close> has no such reading; it is read as 0.)
\<close>

fun valueOf :: "double \<Rightarrow> real" where
  "valueOf (Finite x) = x"
| "valueOf PosInf = 0"
| "valueOf NegInf = 0"
| "valueOf NaN = 0"

definition exactValidator :: "double ValidatorRec \<Rightarrow> ValidatorData" where
  "exactValidator v =
     \<lparr>voteAccount = voteAccount v, name = name v, stakeAccount = stakeAccount v,
      activeBalance = valueOf (activeBalance v),
      activeBalanceLamports = activeBalanceLamports v,
      transientStakeAccount = transientStakeAccount v,
      transientBalance = valueOf (transientBalance v),
      transientBalanceLamports = transientBalanceLamports v,
      targetBalance = map_option valueOf (targetBalance v), action = action v\<rparr>"

definition exactState :: "double EditRec \<Rightarrow> EditState" where
  "exactState s =
     \<lparr>validators = map exactValidator (validators s),
      newValidators = map exactValidator (newValidators s),
      reserveAccount = reserveAccount s, reserveBalance = valueOf (reserveBalance s)\<rparr>"

section \<open>Notions the properties are stated with\<close>

text \<open>
  The index space of the commands: the existing validators, then the proposed ones; and
  the target a command reads at an index of it.
\<close>

definition allValidators :: "EditState \<Rightarrow> ValidatorData list" where
  "allValidators s = validators s @ newValidators s"


text \<open>The error kind of what a command printed, if it printed an error.\<close>

definition errorOf :: "Message option \<Rightarrow> CoreError option" where
  "errorOf m = (case m of None \<Rightarrow> None | Some x \<Rightarrow> errorKind x)"

text \<open>Invariant I2: an existing validator marked \<open>remove\<close> has target 0.\<close>

definition I2 :: "EditState \<Rightarrow> bool" where
  "I2 s = list_all (\<lambda>v. targetBalance v = Some 0)
            (filter (\<lambda>v. action v = Some Remove) (validators s))"

text \<open>A balance that is a whole number of lamports (a multiple of \<open>10\<^sup>-\<^sup>9\<close>).\<close>

definition lamportAligned :: "real \<Rightarrow> bool" where
  "lamportAligned t \<longleftrightarrow> of_int \<lfloor>t * 1000000000\<rfloor> = t * 1000000000"

text \<open>
  What rebalance may do to one record: every field but the target stays; the target stays,
  or becomes a whole number of lamports less than half a lamport below it; and a target
  that is a whole number of lamports does not decrease.
\<close>

definition rebalanceRel :: "ValidatorData \<Rightarrow> ValidatorData \<Rightarrow> bool" where
  "rebalanceRel v w \<longleftrightarrow>
     w\<lparr>targetBalance := None\<rparr> = v\<lparr>targetBalance := None\<rparr>
     \<and> (tgt w = tgt v \<or> (lamportAligned (tgt w) \<and> tgt v - 1 / 2000000000 < tgt w))
     \<and> (\<not> lamportAligned (tgt v) \<or> (lamportAligned (tgt w) \<and> tgt v \<le> tgt w))"

text \<open>The specification's sum of the targets of the active existing validators.\<close>

definition spec_activeTargetSum :: "EditState \<Rightarrow> real" where
  "spec_activeTargetSum s =
     (\<Sum>v\<leftarrow>filter (\<lambda>v. action v \<noteq> Some Remove) (validators s). tgt v)"

text \<open>
  Steps 3 to 5 of the specification's rebalance, on the list of the active targets in
  ascending order: the equal-share point; the walk that transfers
  \<open>min (deficit, remaining)\<close> to each target below it, rounding the target and the
  remaining pool, and stops once the pool is exhausted; and the equal distribution of
  what then remains.
\<close>

fun spec_walk :: "real \<Rightarrow> real \<Rightarrow> real list \<Rightarrow> real list \<times> real" where
  "spec_walk targetPerValidator freed [] = ([], freed)"
| "spec_walk targetPerValidator freed (t # ts) =
     (if freed \<le> 0 then (t # ts, freed)
      else if t < targetPerValidator then
        (let transfer = min (targetPerValidator - t) freed;
             rest = spec_walk targetPerValidator (roundToLamports (freed - transfer)) ts
         in (roundToLamports (t + transfer) # fst rest, snd rest))
      else
        (let rest = spec_walk targetPerValidator freed ts
         in (t # fst rest, snd rest)))"

definition spec_rebalance :: "real \<Rightarrow> real list \<Rightarrow> real list" where
  "spec_rebalance freed targets =
     (let targetPerValidator = (sum_list targets + freed) / real (length targets);
          walked = spec_walk targetPerValidator freed targets
      in if 0 < snd walked
         then map (\<lambda>t. roundToLamports (t + snd walked / real (length targets))) (fst walked)
         else fst walked)"

section \<open>Sample states\<close>

text \<open>A record as \<open>loadData\<close> builds it, with a given balance, target and action.\<close>

definition sampleValidator :: "string \<Rightarrow> real \<Rightarrow> real \<Rightarrow> Action \<Rightarrow> ValidatorData" where
  "sampleValidator a current target act =
     \<lparr>voteAccount = a, name = None, stakeAccount = '''',
      activeBalance = current, activeBalanceLamports = '''',
      transientStakeAccount = '''', transientBalance = 0,
      transientBalanceLamports = ''0'', targetBalance = Some target, action = Some act\<rparr>"

definition sampleState :: "ValidatorData list \<Rightarrow> ValidatorData list \<Rightarrow> real \<Rightarrow> EditState" where
  "sampleState vs nvs reserve =
     \<lparr>validators = vs, newValidators = nvs, reserveAccount = ''R'', reserveBalance = reserve\<rparr>"

text \<open>A chain lookup that resolves a node identity to its vote account, and a name service.\<close>

definition sampleChain :: "string \<Rightarrow> bool \<times> string" where
  "sampleChain a =
     (if a = ''nodeX'' then (True, ''X'') else if a = ''bad'' then (False, a) else (True, a))"

definition sampleNames :: "string \<Rightarrow> string option" where
  "sampleNames a = (if a = ''X'' then Some ''Validator X'' else None)"

text \<open>Two validators and an empty reserve; the first has a manual target edit.\<close>

definition stateAB :: EditState where
  "stateAB = sampleState
     [sampleValidator ''A'' 1000 1200 Keep, sampleValidator ''B'' 500 500 Keep] [] 0"

text \<open>A removed validator, a kept one and a proposed one, with a reserve of 10.\<close>

definition stateMixed :: EditState where
  "stateMixed = sampleState
     [sampleValidator ''A'' 1000 0 Remove, sampleValidator ''B'' 500 500 Keep]
     [sampleValidator ''N'' 0 2 Add] 10"

text \<open>A removed validator that holds no stake, beside an active one.\<close>

definition stateZeroRemoved :: EditState where
  "stateZeroRemoved = sampleState
     [sampleValidator ''A'' 100 100 Keep, sampleValidator ''B'' 0 0 Remove] [] 0"

text \<open>A single validator, removed.\<close>

definition stateOnlyRemoved :: EditState where
  "stateOnlyRemoved = sampleState [sampleValidator ''A'' 1000 0 Remove] [] 0"

text \<open>
  Three active validators, the third with a target set to more than nine decimals, and a
  removed validator holding one lamport.
\<close>

definition stateOffGrid :: EditState where
  "stateOffGrid = sampleState
     [sampleValidator ''A'' 100 100 Keep, sampleValidator ''B'' 100 100 Keep,
      sampleValidator ''C'' 100 (1000000000004 / 10000000000) Keep,
      sampleValidator ''D'' (1 / 1000000000) 0 Remove] [] 0"

text \<open>Active targets 0, 100 and 100, and a removed validator holding 60.\<close>

definition stateFill :: EditState where
  "stateFill = sampleState
     [sampleValidator ''A'' 0 0 Keep, sampleValidator ''R'' 60 0 Remove,
      sampleValidator ''B'' 100 100 Keep, sampleValidator ''C'' 100 100 Keep] [] 0"

text \<open>Five active validators at 100, and a removed validator holding two lamports.\<close>

definition stateFive :: EditState where
  "stateFive = sampleState
     [sampleValidator ''A'' 100 100 Keep, sampleValidator ''B'' 100 100 Keep,
      sampleValidator ''C'' 100 100 Keep, sampleValidator ''D'' 100 100 Keep,
      sampleValidator ''E'' 100 100 Keep,
      sampleValidator ''F'' (2 / 1000000000) 0 Remove] [] 0"

text \<open>Active targets 100, 10 and 0 in index order, and a removed validator holding 50.\<close>

definition stateDescending :: EditState where
  "stateDescending = sampleState
     [sampleValidator ''A'' 100 100 Keep, sampleValidator ''B'' 10 10 Keep,
      sampleValidator ''C'' 0 0 Keep, sampleValidator ''D'' 50 0 Remove] [] 0"

text \<open>States of doubles.\<close>

definition sampleValidatorD :: "string \<Rightarrow> double \<Rightarrow> double \<Rightarrow> Action \<Rightarrow> double ValidatorRec" where
  "sampleValidatorD a current target act =
     \<lparr>voteAccount = a, name = None, stakeAccount = '''',
      activeBalance = current, activeBalanceLamports = '''',
      transientStakeAccount = '''', transientBalance = Finite 0,
      transientBalanceLamports = ''0'', targetBalance = Some target, action = Some act\<rparr>"

definition sampleStateD ::
  "double ValidatorRec list \<Rightarrow> double ValidatorRec list \<Rightarrow> double \<Rightarrow> double EditRec" where
  "sampleStateD vs nvs reserve =
     \<lparr>validators = vs, newValidators = nvs, reserveAccount = ''R'', reserveBalance = reserve\<rparr>"


text \<open>Three validators kept at 0.32, 2.52 and 0.15.\<close>

definition stateFloor :: "double EditRec" where
  "stateFloor = sampleStateD
     [sampleValidatorD ''A'' (roundDouble (32 / 100)) (roundDouble (32 / 100)) Keep,
      sampleValidatorD ''B'' (roundDouble (252 / 100)) (roundDouble (252 / 100)) Keep,
      sampleValidatorD ''C'' (roundDouble (15 / 100)) (roundDouble (15 / 100)) Keep]
     [] (Finite 0)"



section \<open>Helper facts\<close>

lemma foldl_add_sum_list:
  "foldl (\<lambda>s v. s + f v) a xs = (a::real) + sum_list (map f xs)"
  by (induction xs arbitrary: a) simp_all

lemma lookupIdx_in_range:
  "0 \<le> idx \<Longrightarrow> idx < int (length xs) \<Longrightarrow> lookupIdx xs idx = Some (xs ! nat idx)"
  by (simp add: lookupIdx_def)

lemma lookupIdx_None_iff:
  "lookupIdx xs idx = None \<longleftrightarrow> \<not> (0 \<le> idx \<and> idx < int (length xs))"
  by (simp add: lookupIdx_def)

section \<open>Feasibility decision rule\<close>

text \<open>Evaluating the rounding on numerals.\<close>

lemma expUp_numeral:
  "expUp (numeral k) e x = (if pow2 (e + 1) \<le> x then expUp (pred_numeral k) (e + 1) x else e)"
  by (simp add: numeral_eq_Suc)

lemma expDown_numeral:
  "expDown (numeral k) e x = (if x < pow2 e then expDown (pred_numeral k) (e - 1) x else e)"
  by (simp add: numeral_eq_Suc)

lemmas double_eval = roundDouble_def exponentOf_def expUp_numeral expDown_numeral pow2_def
  roundHalfEven_def Let_def dsub_def


text \<open>
  The other rule has the same boundary: on exact sums the targets 0.32, 2.52 and 0.15
  reach the floor 3 - 0.01, but the code's sum is 2.9899999999999998, below its 2.99.
\<close>

lemma validate_floor_boundary:
  "spec_increasedStake (exactState stateFloor)
      \<le> spec_availableReserve (exactState stateFloor) + 1 / 100
   \<and> spec_minimumRequired (exactState stateFloor) - 1 / 100
      \<le> spec_totalTarget (exactState stateFloor)
   \<and> \<not> validate stateFloor"
  by (simp add: stateFloor_def sampleStateD_def sampleValidatorD_def exactState_def
      exactValidator_def spec_increasedStake_def spec_availableReserve_def
      spec_minimumRequired_def spec_totalTarget_def spec_removedStake_def
      spec_decreasedStake_def tgt_def tgt0_def validate_def tgtD_def tgt0D_def double_eval)

text \<open>On finite doubles, not greater is at most.\<close>

lemma not_dless_Finite: "\<not> dless (Finite y) (Finite x) \<longleftrightarrow> x \<le> y"
  by auto



section \<open>Removal and undo\<close>

text \<open>
  Claim C4. For an index into the existing validators, \<open>markRemoved\<close> reports nothing
  and leaves the record with action \<open>remove\<close> and target 0, and applying it a second time
  changes nothing more. A following \<open>undoRemoved\<close> leaves the record with action
  \<open>keep\<close> and its target equal to its current balance, whatever the target was before
  the removal; \<open>undoRemoved\<close> gives the same reset on a record that was never removed.
\<close>

theorem markRemoved_undoRemoved_post:
  assumes "0 \<le> i" and "i < int (length (validators s))"
  shows "fst (markRemoved i s) = None
    \<and> action (validators (snd (markRemoved i s)) ! nat i) = Some Remove
    \<and> targetBalance (validators (snd (markRemoved i s)) ! nat i) = Some 0
    \<and> markRemoved i (snd (markRemoved i s)) = markRemoved i s
    \<and> action (validators (snd (undoRemoved i (snd (markRemoved i s)))) ! nat i) = Some Keep
    \<and> targetBalance (validators (snd (undoRemoved i (snd (markRemoved i s)))) ! nat i)
        = Some (activeBalance (validators s ! nat i))
    \<and> activeBalance (validators (snd (undoRemoved i (snd (markRemoved i s)))) ! nat i)
        = activeBalance (validators s ! nat i)
    \<and> action (validators (snd (undoRemoved i s)) ! nat i) = Some Keep
    \<and> targetBalance (validators (snd (undoRemoved i s)) ! nat i)
        = Some (activeBalance (validators s ! nat i))"
  using assms by (simp add: markRemoved_def undoRemoved_def lookupIdx_def Let_def)

theorem markRemoved_undoRemoved_post_witness:
  "(0::int) \<le> 0 \<and> 0 < int (length (validators stateAB))
    \<and> targetBalance (validators stateAB ! 0) = Some 1200
    \<and> fst (markRemoved 0 stateAB) = None
    \<and> action (validators (snd (markRemoved 0 stateAB)) ! 0) = Some Remove
    \<and> targetBalance (validators (snd (markRemoved 0 stateAB)) ! 0) = Some 0
    \<and> markRemoved 0 (snd (markRemoved 0 stateAB)) = markRemoved 0 stateAB
    \<and> action (validators (snd (undoRemoved 0 (snd (markRemoved 0 stateAB)))) ! 0) = Some Keep
    \<and> targetBalance (validators (snd (undoRemoved 0 (snd (markRemoved 0 stateAB)))) ! 0)
        = Some 1000
    \<and> action (validators (snd (undoRemoved 0 stateAB)) ! 0) = Some Keep
    \<and> targetBalance (validators (snd (undoRemoved 0 stateAB)) ! 0) = Some 1000"
  using markRemoved_undoRemoved_post [of 0 stateAB]
  by (simp add: stateAB_def sampleState_def sampleValidator_def)

section \<open>Adjusting a target\<close>



section \<open>Adding a validator\<close>



section \<open>Errors leave the state as it was\<close>

text \<open>
  Claim C7. Whenever a command reports an error (an invalid index, an invalid operation or
  a duplicate validator), the state after it is the state before it. \<open>undoRemoved\<close> and
  \<open>setTarget\<close> never report anything; \<open>addValidator\<close> leaves the state as it was
  unless it reports the addition; and an index outside the combined list changes nothing
  in any of the indexed commands.
\<close>

theorem error_atomicity:
  "(errorOf (fst (markRemoved i s)) \<noteq> None \<longrightarrow> snd (markRemoved i s) = s)
   \<and> fst (undoRemoved i s) = None
   \<and> fst (setTarget i amt s) = None
   \<and> (errorOf (fst (addToTarget i amt s)) \<noteq> None \<longrightarrow> snd (addToTarget i amt s) = s)
   \<and> (errorOf (fst (subtractFromTarget i amt s)) \<noteq> None \<longrightarrow>
        snd (subtractFromTarget i amt s) = s)
   \<and> (fst (addValidator V N a s) \<noteq> Some Added \<longrightarrow> snd (addValidator V N a s) = s)
   \<and> errorOf (Some Added) = None
   \<and> (\<not> (0 \<le> i \<and> i < int (length (allValidators s))) \<longrightarrow>
        snd (markRemoved i s) = s \<and> snd (undoRemoved i s) = s \<and> snd (setTarget i amt s) = s
        \<and> snd (addToTarget i amt s) = s \<and> snd (subtractFromTarget i amt s) = s)"
proof -
  have m: "errorOf (fst (markRemoved i s)) \<noteq> None \<longrightarrow> snd (markRemoved i s) = s"
    by (simp add: markRemoved_def Let_def errorOf_def)
  have u: "fst (undoRemoved i s) = None" by (simp add: undoRemoved_def Let_def)
  have t: "fst (setTarget i amt s) = None" by (simp add: setTarget_def Let_def)
  have p: "errorOf (fst (addToTarget i amt s)) \<noteq> None \<longrightarrow> snd (addToTarget i amt s) = s"
    by (simp add: addToTarget_def Let_def errorOf_def)
  have q: "errorOf (fst (subtractFromTarget i amt s)) \<noteq> None \<longrightarrow>
        snd (subtractFromTarget i amt s) = s"
    by (simp add: subtractFromTarget_def Let_def errorOf_def)
  have a: "fst (addValidator V N a s) \<noteq> Some Added \<longrightarrow> snd (addValidator V N a s) = s"
    by (simp add: addValidator_def Let_def)
  have e: "errorOf (Some Added) = None" by (simp add: errorOf_def)
  have r: "\<not> (0 \<le> i \<and> i < int (length (allValidators s))) \<longrightarrow>
        snd (markRemoved i s) = s \<and> snd (undoRemoved i s) = s \<and> snd (setTarget i amt s) = s
        \<and> snd (addToTarget i amt s) = s \<and> snd (subtractFromTarget i amt s) = s"
    by (auto simp: markRemoved_def undoRemoved_def setTarget_def addToTarget_def
        subtractFromTarget_def Let_def lookupIdx_def allValidators_def)
  from m u t p q a e r show ?thesis by blast
qed

theorem error_atomicity_witness:
  "errorOf (fst (markRemoved 5 stateMixed)) = Some InvalidIndex
   \<and> snd (markRemoved 5 stateMixed) = stateMixed
   \<and> errorOf (fst (addToTarget 0 (Some 5) stateMixed)) = Some InvalidOperation
   \<and> snd (addToTarget 0 (Some 5) stateMixed) = stateMixed
   \<and> errorOf (fst (addToTarget 1 None stateMixed)) = Some InvalidIndex
   \<and> snd (addToTarget 1 None stateMixed) = stateMixed
   \<and> errorOf (fst (subtractFromTarget 1 (Some 600) stateMixed)) = Some InvalidOperation
   \<and> snd (subtractFromTarget 1 (Some 600) stateMixed) = stateMixed
   \<and> errorOf (fst (addValidator sampleChain sampleNames ''A'' stateMixed)) = Some DuplicateValidator
   \<and> snd (addValidator sampleChain sampleNames ''A'' stateMixed) = stateMixed
   \<and> fst (addValidator sampleChain sampleNames ''bad'' stateMixed) = Some InvalidVoteAccount
   \<and> snd (addValidator sampleChain sampleNames ''bad'' stateMixed) = stateMixed
   \<and> \<not> (7::int) < int (length (allValidators stateMixed))
   \<and> snd (undoRemoved 7 stateMixed) = stateMixed
   \<and> snd (setTarget 7 (Some 1) stateMixed) = stateMixed
   \<and> snd (subtractFromTarget 7 (Some 1) stateMixed) = stateMixed"
  using error_atomicity [where i = 5 and s = stateMixed and amt = "Some 5" and a = "''A''"
      and V = sampleChain and N = sampleNames]
    error_atomicity [where i = 0 and s = stateMixed and amt = "Some 5" and a = "''bad''"
      and V = sampleChain and N = sampleNames]
    error_atomicity [where i = 1 and s = stateMixed and amt = None and a = "''A''"
      and V = sampleChain and N = sampleNames]
    error_atomicity [where i = 1 and s = stateMixed and amt = "Some 600" and a = "''A''"
      and V = sampleChain and N = sampleNames]
    error_atomicity [where i = 7 and s = stateMixed and amt = "Some 1" and a = "''A''"
      and V = sampleChain and N = sampleNames]
  by (simp add: stateMixed_def sampleState_def sampleValidator_def sampleChain_def
      sampleNames_def hasVoteAccount_def addValidator_def markRemoved_def addToTarget_def
      subtractFromTarget_def lookupIdx_def errorOf_def allValidators_def tgt_def
      roundToLamports_def Math_round_def Let_def)

section \<open>When rebalance does nothing\<close>

lemma activeValidators_Nil_iff:
  "activeValidators vs = [] \<longleftrightarrow> \<not> list_ex (\<lambda>v. action v \<noteq> Some Remove) vs"
proof -
  have "activeValidators vs = [] \<longleftrightarrow> activeIndices vs = []"
    unfolding activeValidators_def by (metis length_0_conv length_sort)
  also have "\<dots> \<longleftrightarrow> (\<forall>i<length vs. action (vs ! i) = Some Remove)"
    by (auto simp: activeIndices_def filter_empty_conv)
  also have "\<dots> \<longleftrightarrow> \<not> list_ex (\<lambda>v. action v \<noteq> Some Remove) vs"
    by (simp add: list_ex_iff all_set_conv_all_nth)
  finally show ?thesis .
qed

lemma removedStake_none:
  "\<not> list_ex (\<lambda>v. action v = Some Remove) (validators s) \<Longrightarrow> removedStake s = 0"
proof -
  assume "\<not> list_ex (\<lambda>v. action v = Some Remove) (validators s)"
  then have "filter (\<lambda>v. action v = Some Remove) (validators s) = []"
    by (auto simp: list_ex_iff filter_empty_conv)
  then show ?thesis by (simp add: removedStake_def)
qed

text \<open>
  Claim C9 as stated fails: with a removed validator that holds no stake and an active
  validator beside it, rebalance leaves the state as it was.
\<close>

theorem rebalance_noop_counterexample:
  "\<not> (snd (autoRebalance stateZeroRemoved) = stateZeroRemoved \<longleftrightarrow>
        (\<not> list_ex (\<lambda>v. action v = Some Remove) (validators stateZeroRemoved)
         \<or> \<not> list_ex (\<lambda>v. action v \<noteq> Some Remove) (validators stateZeroRemoved)))"
  by (simp add: autoRebalance_def removedStake_def stateZeroRemoved_def sampleState_def
      sampleValidator_def)

text \<open>
  Claim C9, amended. Rebalance leaves the state as it was, with a message, when the freed
  stake (the balances of the validators marked \<open>remove\<close>, summed) is zero, which is so in
  particular when no validator is marked \<open>remove\<close>, or when no active validator exists
  to receive it. In every other case it reports a redistribution.
\<close>

theorem rebalance_noop_rule:
  "(removedStake s = 0 \<longrightarrow> autoRebalance s = (Some NoValidatorsMarked, s))
   \<and> (removedStake s \<noteq> 0 \<and> \<not> list_ex (\<lambda>v. action v \<noteq> Some Remove) (validators s) \<longrightarrow>
        autoRebalance s = (Some NoActiveValidators, s))
   \<and> (removedStake s \<noteq> 0 \<and> list_ex (\<lambda>v. action v \<noteq> Some Remove) (validators s) \<longrightarrow>
        fst (autoRebalance s) = Some Redistributed)
   \<and> (\<not> list_ex (\<lambda>v. action v = Some Remove) (validators s) \<longrightarrow> removedStake s = 0)"
  using activeValidators_Nil_iff [of "validators s"] removedStake_none [of s]
  by (auto simp: autoRebalance_def Let_def split: prod.splits)

theorem rebalance_noop_rule_witness:
  "\<not> list_ex (\<lambda>v. action v = Some Remove) (validators stateAB)
   \<and> removedStake stateAB = 0
   \<and> autoRebalance stateAB = (Some NoValidatorsMarked, stateAB)
   \<and> removedStake stateOnlyRemoved \<noteq> 0
   \<and> \<not> list_ex (\<lambda>v. action v \<noteq> Some Remove) (validators stateOnlyRemoved)
   \<and> autoRebalance stateOnlyRemoved = (Some NoActiveValidators, stateOnlyRemoved)
   \<and> removedStake stateMixed \<noteq> 0
   \<and> list_ex (\<lambda>v. action v \<noteq> Some Remove) (validators stateMixed)
   \<and> fst (autoRebalance stateMixed) = Some Redistributed"
  using rebalance_noop_rule [of stateAB] rebalance_noop_rule [of stateOnlyRemoved]
    rebalance_noop_rule [of stateMixed]
  by (simp add: removedStake_def stateAB_def stateOnlyRemoved_def stateMixed_def
      sampleState_def sampleValidator_def)

section \<open>Rounding to lamports\<close>

lemma roundToLamports_lower: "x - 1 / 2000000000 < roundToLamports x"
proof -
  have "x * 1000000000 + 1 / 2 < of_int \<lfloor>x * 1000000000 + 1 / 2\<rfloor> + 1"
    by (rule real_of_int_floor_add_one_gt)
  then show ?thesis
    by (simp add: roundToLamports_def Math_round_def field_simps)
qed

lemma roundToLamports_upper: "roundToLamports x \<le> x + 1 / 2000000000"
proof -
  have "of_int \<lfloor>x * 1000000000 + 1 / 2\<rfloor> \<le> x * 1000000000 + 1 / 2"
    by (rule of_int_floor_le)
  then show ?thesis
    by (simp add: roundToLamports_def Math_round_def field_simps)
qed

lemma roundToLamports_error: "\<bar>roundToLamports x - x\<bar> \<le> 1 / 2000000000"
  using roundToLamports_lower [of x] roundToLamports_upper [of x] by linarith

lemma roundToLamports_nonneg: "0 \<le> x \<Longrightarrow> 0 \<le> roundToLamports x"
proof -
  assume "0 \<le> x"
  then have "0 \<le> x * 1000000000 + 1 / 2" by simp
  then have "0 \<le> \<lfloor>x * 1000000000 + 1 / 2\<rfloor>" by simp
  then show ?thesis by (simp add: roundToLamports_def Math_round_def)
qed

lemma roundToLamports_aligned: "lamportAligned (roundToLamports x)"
  by (simp add: lamportAligned_def roundToLamports_def)

lemma roundToLamports_aligned_mono:
  assumes "lamportAligned t" and "0 \<le> a"
  shows "t \<le> roundToLamports (t + a)"
proof -
  let ?k = "\<lfloor>t * 1000000000\<rfloor>"
  from assms(1) have t: "t * 1000000000 = of_int ?k"
    unfolding lamportAligned_def by (rule sym)
  have "(t + a) * 1000000000 + 1 / 2 = of_int ?k + (a * 1000000000 + 1 / 2)"
    using t by (simp add: algebra_simps)
  then have "\<lfloor>(t + a) * 1000000000 + 1 / 2\<rfloor> = ?k + \<lfloor>a * 1000000000 + 1 / 2\<rfloor>"
    by (metis floor_add_int add.commute)
  moreover have "0 \<le> \<lfloor>a * 1000000000 + 1 / 2\<rfloor>" using assms(2) by simp
  ultimately have "?k \<le> \<lfloor>(t + a) * 1000000000 + 1 / 2\<rfloor>" by simp
  then have "of_int ?k \<le> (of_int \<lfloor>(t + a) * 1000000000 + 1 / 2\<rfloor> :: real)" by simp
  with t have "t * 1000000000 \<le> of_int \<lfloor>(t + a) * 1000000000 + 1 / 2\<rfloor>" by simp
  then show ?thesis by (simp add: roundToLamports_def Math_round_def field_simps)
qed

section \<open>What the two loops of rebalance preserve\<close>

text \<open>
  Any relation between a record and its later self that is reflexive, transitive and holds
  across one rounded increase of the target holds between the validators before and after
  rebalance.
\<close>

lemma list_all2_step:
  assumes "\<And>v. R v v" and "R (vs ! i) u"
  shows "list_all2 R vs (vs[i := u])"
proof -
  have "R (vs ! j) (vs[i := u] ! j)" if "j < length vs" for j
    using assms that by (cases "j = i") simp_all
  then show ?thesis by (simp add: list_all2_conv_all_nth)
qed

lemma distribute_rel:
  assumes refl: "\<And>v. R v v"
    and trans: "\<And>u v w. R u v \<Longrightarrow> R v w \<Longrightarrow> R u w"
    and step: "\<And>v a. 0 < a \<Longrightarrow> R v (v\<lparr>targetBalance := Some (roundToLamports (tgt v + a))\<rparr>)"
  shows "list_all2 R vs (fst (distribute tpv js vs r))"
proof (induction js arbitrary: vs r)
  case Nil
  show ?case by (simp add: list_all2_refl refl)
next
  case (Cons i rest)
  show ?case
  proof (cases "r \<le> 0")
    case True
    then show ?thesis by (simp add: list_all2_refl refl)
  next
    case False
    show ?thesis
    proof (cases "0 < tpv - tgt (vs ! i)")
      case True
      let ?a = "min (tpv - tgt (vs ! i)) r"
      let ?u = "(vs ! i)\<lparr>targetBalance := Some (roundToLamports (tgt (vs ! i) + ?a))\<rparr>"
      from True False have "0 < ?a" by simp
      then have "R (vs ! i) ?u" by (rule step)
      then have one: "list_all2 R vs (vs[i := ?u])" by (rule list_all2_step [OF refl])
      have two: "list_all2 R (vs[i := ?u])
          (fst (distribute tpv rest (vs[i := ?u]) (roundToLamports (r - ?a))))"
        by (rule Cons.IH)
      have "list_all2 R vs (fst (distribute tpv rest (vs[i := ?u]) (roundToLamports (r - ?a))))"
        using list_all2_trans [of R R R, OF _ one two] trans by blast
      with True False show ?thesis by (simp add: Let_def)
    next
      case no: False
      with False Cons.IH [of vs r] show ?thesis by (simp add: Let_def)
    qed
  qed
qed

lemma spread_rel:
  assumes refl: "\<And>v. R v v"
    and trans: "\<And>u v w. R u v \<Longrightarrow> R v w \<Longrightarrow> R u w"
    and step: "\<And>v a. 0 < a \<Longrightarrow> R v (v\<lparr>targetBalance := Some (roundToLamports (tgt v + a))\<rparr>)"
    and pos: "0 < p"
  shows "list_all2 R vs (spread p js vs)"
proof (induction js arbitrary: vs)
  case Nil
  show ?case by (simp add: list_all2_refl refl)
next
  case (Cons i rest)
  let ?u = "(vs ! i)\<lparr>targetBalance := Some (roundToLamports (tgt (vs ! i) + p))\<rparr>"
  from pos have "R (vs ! i) ?u" by (rule step)
  then have one: "list_all2 R vs (vs[i := ?u])" by (rule list_all2_step [OF refl])
  have two: "list_all2 R (vs[i := ?u]) (spread p rest (vs[i := ?u]))" by (rule Cons.IH)
  have "list_all2 R vs (spread p rest (vs[i := ?u]))"
    using list_all2_trans [of R R R, OF _ one two] trans by blast
  then show ?case by simp
qed

lemma autoRebalance_rel:
  assumes refl: "\<And>v. R v v"
    and trans: "\<And>u v w. R u v \<Longrightarrow> R v w \<Longrightarrow> R u w"
    and step: "\<And>v a. 0 < a \<Longrightarrow> R v (v\<lparr>targetBalance := Some (roundToLamports (tgt v + a))\<rparr>)"
  shows "list_all2 R (validators s) (validators (snd (autoRebalance s)))"
proof -
  let ?vs = "validators s"
  let ?act = "activeValidators ?vs"
  have same: "list_all2 R ?vs ?vs" by (simp add: list_all2_refl refl)
  show ?thesis
  proof (cases "removedStake s = 0 \<or> length ?act = 0")
    case True
    with same show ?thesis by (auto simp: autoRebalance_def Let_def)
  next
    case False
    define tpv where "tpv = (foldl (\<lambda>s i. s + tgt (?vs ! i)) 0 ?act + removedStake s)
        / real (length ?act)"
    define d where "d = distribute tpv ?act ?vs (removedStake s)"
    have one: "list_all2 R ?vs (fst d)"
      unfolding d_def using distribute_rel [where R = R] refl trans step by blast
    have fin: "validators (snd (autoRebalance s))
        = (if 0 < snd d then spread (snd d / real (length ?act)) ?act (fst d) else fst d)"
      using False by (simp add: autoRebalance_def Let_def tpv_def d_def split: prod.splits)
    show ?thesis
    proof (cases "0 < snd d")
      case True
      from False have "0 < real (length ?act)" by simp
      with True have "0 < snd d / real (length ?act)" by simp
      then have two: "list_all2 R (fst d) (spread (snd d / real (length ?act)) ?act (fst d))"
        using spread_rel [where R = R] refl trans step by blast
      have "list_all2 R ?vs (spread (snd d / real (length ?act)) ?act (fst d))"
        using list_all2_trans [of R R R, OF _ one two] trans by blast
      with True fin show ?thesis by simp
    next
      case no: False
      with fin one show ?thesis by simp
    qed
  qed
qed

lemma distribute_untouched:
  "j \<notin> set js \<Longrightarrow> fst (distribute tpv js vs r) ! j = vs ! j"
  by (induction tpv js vs r rule: distribute.induct) (auto simp: Let_def)

lemma spread_untouched: "j \<notin> set js \<Longrightarrow> spread p js vs ! j = vs ! j"
  by (induction js arbitrary: vs) auto

lemma autoRebalance_untouched:
  assumes "j \<notin> set (activeValidators (validators s))"
  shows "validators (snd (autoRebalance s)) ! j = validators s ! j"
proof -
  let ?vs = "validators s"
  let ?act = "activeValidators ?vs"
  show ?thesis
  proof (cases "removedStake s = 0 \<or> length ?act = 0")
    case True
    then show ?thesis by (auto simp: autoRebalance_def Let_def)
  next
    case False
    define tpv where "tpv = (foldl (\<lambda>s i. s + tgt (?vs ! i)) 0 ?act + removedStake s)
        / real (length ?act)"
    define d where "d = distribute tpv ?act ?vs (removedStake s)"
    have one: "fst d ! j = ?vs ! j"
      unfolding d_def using assms by (rule distribute_untouched)
    have fin: "validators (snd (autoRebalance s))
        = (if 0 < snd d then spread (snd d / real (length ?act)) ?act (fst d) else fst d)"
      using False by (simp add: autoRebalance_def Let_def tpv_def d_def split: prod.splits)
    show ?thesis
      using one assms by (simp add: fin spread_untouched)
  qed
qed

lemma autoRebalance_other_fields:
  "newValidators (snd (autoRebalance s)) = newValidators s
   \<and> reserveBalance (snd (autoRebalance s)) = reserveBalance s
   \<and> reserveAccount (snd (autoRebalance s)) = reserveAccount s"
  by (simp add: autoRebalance_def Let_def split: prod.splits)

lemma rebalanceRel_refl: "rebalanceRel v v"
  by (simp add: rebalanceRel_def)

lemma rebalanceRel_trans:
  assumes "rebalanceRel u v" and "rebalanceRel v w"
  shows "rebalanceRel u w"
proof -
  from assms have "w\<lparr>targetBalance := None\<rparr> = u\<lparr>targetBalance := None\<rparr>"
    unfolding rebalanceRel_def by simp
  moreover from assms
  have "tgt w = tgt u \<or> (lamportAligned (tgt w) \<and> tgt u - 1 / 2000000000 < tgt w)"
    unfolding rebalanceRel_def by linarith
  moreover from assms
  have "\<not> lamportAligned (tgt u) \<or> (lamportAligned (tgt w) \<and> tgt u \<le> tgt w)"
    unfolding rebalanceRel_def by linarith
  ultimately show ?thesis unfolding rebalanceRel_def by blast
qed

lemma rebalanceRel_step:
  assumes "0 < a"
  shows "rebalanceRel v (v\<lparr>targetBalance := Some (roundToLamports (tgt v + a))\<rparr>)"
proof -
  let ?t = "roundToLamports (tgt v + a)"
  have t: "tgt (v\<lparr>targetBalance := Some ?t\<rparr>) = ?t" by (simp add: tgt_def)
  have "tgt v - 1 / 2000000000 < ?t"
    using roundToLamports_lower [of "tgt v + a"] assms by linarith
  moreover have "lamportAligned (tgt v) \<Longrightarrow> tgt v \<le> ?t"
    using roundToLamports_aligned_mono [of "tgt v" a] assms by simp
  ultimately show ?thesis
    unfolding rebalanceRel_def t using roundToLamports_aligned [of "tgt v + a"] by auto
qed

lemma activeValidators_set:
  "set (activeValidators vs) = {i. i < length vs \<and> action (vs ! i) \<noteq> Some Remove}"
  by (auto simp: activeValidators_def activeIndices_def)

section \<open>Rebalance can lower a target\<close>

text \<open>
  Claim C10 as stated fails: the third validator of this state is active with target
  100.0000000004, and rebalance leaves it with target 100.
\<close>

theorem rebalance_monotone_counterexample:
  "action (validators stateOffGrid ! 2) = Some Keep
   \<and> tgt (validators stateOffGrid ! 2) = 1000000000004 / 10000000000
   \<and> tgt (validators (snd (autoRebalance stateOffGrid)) ! 2) = 100
   \<and> \<not> tgt (validators stateOffGrid ! 2) \<le> tgt (validators (snd (autoRebalance stateOffGrid)) ! 2)"
  by (simp add: stateOffGrid_def sampleState_def sampleValidator_def autoRebalance_def
      removedStake_def activeValidators_def activeIndices_def tgt_def Let_def
      roundToLamports_def Math_round_def upt_rec [of _ "numeral _"])

section \<open>Rebalance: frame and monotonicity\<close>

text \<open>
  Claim C10, amended. Rebalance leaves the number of existing validators, the proposed
  validators and the reserve as they were; of an existing validator it changes at most the
  target, so every balance and every action stays; a validator marked \<open>remove\<close> is left
  as it was. A target that is a whole number of lamports never decreases, and no target
  decreases by half a lamport or more.
\<close>

theorem rebalance_frame_and_monotone:
  assumes "j < length (validators s)"
  shows "length (validators (snd (autoRebalance s))) = length (validators s)
    \<and> newValidators (snd (autoRebalance s)) = newValidators s
    \<and> reserveBalance (snd (autoRebalance s)) = reserveBalance s
    \<and> activeBalance (validators (snd (autoRebalance s)) ! j) = activeBalance (validators s ! j)
    \<and> action (validators (snd (autoRebalance s)) ! j) = action (validators s ! j)
    \<and> (validators (snd (autoRebalance s)) ! j)\<lparr>targetBalance := None\<rparr>
        = (validators s ! j)\<lparr>targetBalance := None\<rparr>
    \<and> (action (validators s ! j) = Some Remove \<longrightarrow>
          validators (snd (autoRebalance s)) ! j = validators s ! j)
    \<and> (lamportAligned (tgt (validators s ! j)) \<longrightarrow>
          tgt (validators s ! j) \<le> tgt (validators (snd (autoRebalance s)) ! j))
    \<and> tgt (validators s ! j) - 1 / 2000000000 < tgt (validators (snd (autoRebalance s)) ! j)"
proof -
  let ?vs = "validators s" and ?ws = "validators (snd (autoRebalance s))"
  have all: "list_all2 rebalanceRel ?vs ?ws"
    using autoRebalance_rel [where R = rebalanceRel]
      rebalanceRel_refl rebalanceRel_trans rebalanceRel_step by blast
  then have len: "length ?ws = length ?vs" by (simp add: list_all2_lengthD)
  from all assms have rel: "rebalanceRel (?vs ! j) (?ws ! j)" by (simp add: list_all2_nthD)
  then have rec: "(?ws ! j)\<lparr>targetBalance := None\<rparr> = (?vs ! j)\<lparr>targetBalance := None\<rparr>"
    by (simp add: rebalanceRel_def)
  have bal: "activeBalance (?ws ! j) = activeBalance (?vs ! j)"
    using arg_cong [OF rec, of activeBalance] by simp
  have act: "action (?ws ! j) = action (?vs ! j)"
    using arg_cong [OF rec, of action] by simp
  have removed: "action (?vs ! j) = Some Remove \<longrightarrow> ?ws ! j = ?vs ! j"
    using autoRebalance_untouched [of j s] by (simp add: activeValidators_set)
  from rel have mono: "lamportAligned (tgt (?vs ! j)) \<longrightarrow> tgt (?vs ! j) \<le> tgt (?ws ! j)"
    by (auto simp: rebalanceRel_def)
  from rel have low: "tgt (?vs ! j) - 1 / 2000000000 < tgt (?ws ! j)"
    by (auto simp: rebalanceRel_def)
  from len autoRebalance_other_fields [of s] bal act rec removed mono low
  show ?thesis by blast
qed

theorem rebalance_frame_and_monotone_witness:
  "(0::nat) < length (validators stateFill)
   \<and> lamportAligned (tgt (validators stateFill ! 0))
   \<and> tgt (validators stateFill ! 0) \<le> tgt (validators (snd (autoRebalance stateFill)) ! 0)
   \<and> activeBalance (validators (snd (autoRebalance stateFill)) ! 0) = 0
   \<and> action (validators (snd (autoRebalance stateFill)) ! 0) = Some Keep
   \<and> (1::nat) < length (validators stateFill)
   \<and> action (validators stateFill ! 1) = Some Remove
   \<and> validators (snd (autoRebalance stateFill)) ! 1 = validators stateFill ! 1
   \<and> newValidators (snd (autoRebalance stateFill)) = []
   \<and> reserveBalance (snd (autoRebalance stateFill)) = 0"
  using rebalance_frame_and_monotone [of 0 stateFill]
    rebalance_frame_and_monotone [of 1 stateFill]
  by (simp add: stateFill_def sampleState_def sampleValidator_def tgt_def lamportAligned_def)

section \<open>The sum of the active targets through the two loops\<close>

lemma sum_tgt_update_notin:
  "i \<notin> set js \<Longrightarrow> (\<Sum>j\<leftarrow>js. tgt (vs[i := u] ! j)) = (\<Sum>j\<leftarrow>js. tgt (vs ! j))"
  by (induction js) auto

lemma sum_tgt_update_in:
  assumes "distinct js" and "i \<in> set js" and "i < length vs"
  shows "(\<Sum>j\<leftarrow>js. tgt (vs[i := u] ! j)) = (\<Sum>j\<leftarrow>js. tgt (vs ! j)) - tgt (vs ! i) + tgt u"
  using assms
proof (induction js)
  case Nil
  then show ?case by simp
next
  case (Cons j js)
  show ?case
  proof (cases "j = i")
    case True
    with Cons.prems have "i \<notin> set js" by simp
    then have "(\<Sum>j\<leftarrow>js. tgt (vs[i := u] ! j)) = (\<Sum>j\<leftarrow>js. tgt (vs ! j))"
      by (rule sum_tgt_update_notin)
    with True Cons.prems show ?thesis by simp
  next
    case False
    with Cons.prems have "i \<in> set js" "distinct js" by simp_all
    with Cons.IH Cons.prems(3)
    have "(\<Sum>j\<leftarrow>js. tgt (vs[i := u] ! j)) = (\<Sum>j\<leftarrow>js. tgt (vs ! j)) - tgt (vs ! i) + tgt u"
      by simp
    with False show ?thesis by simp
  qed
qed

lemma length_distribute: "length (fst (distribute tpv is vs r)) = length vs"
  by (induction tpv "is" vs r rule: distribute.induct) (simp_all add: Let_def)

lemma length_spread: "length (spread p is vs) = length vs"
  by (induction "is" arbitrary: vs) simp_all

lemma distribute_sum:
  assumes "distinct js" and "\<forall>j\<in>set js. j < length vs" and "set is \<subseteq> set js" and "0 \<le> r"
  shows "\<bar>(\<Sum>j\<leftarrow>js. tgt (fst (distribute tpv is vs r) ! j)) + snd (distribute tpv is vs r)
          - ((\<Sum>j\<leftarrow>js. tgt (vs ! j)) + r)\<bar> \<le> real (length is) / 1000000000
       \<and> 0 \<le> snd (distribute tpv is vs r)"
  using assms(2-4)
proof (induction "is" arbitrary: vs r)
  case Nil
  then show ?case by simp
next
  case (Cons i rest)
  show ?case
  proof (cases "r \<le> 0")
    case True
    with Cons.prems show ?thesis by simp
  next
    case False
    show ?thesis
    proof (cases "0 < tpv - tgt (vs ! i)")
      case True
      let ?a = "min (tpv - tgt (vs ! i)) r"
      let ?t = "roundToLamports (tgt (vs ! i) + ?a)"
      let ?u = "(vs ! i)\<lparr>targetBalance := Some ?t\<rparr>"
      let ?vs1 = "vs[i := ?u]"
      let ?r1 = "roundToLamports (r - ?a)"
      let ?d = "distribute tpv rest ?vs1 ?r1"
      have unfold: "distribute tpv (i # rest) vs r = ?d"
        using True False by (simp add: Let_def)
      from Cons.prems have i: "i \<in> set js" "i < length vs" by auto
      have tu: "tgt ?u = ?t" by (simp add: tgt_def)
      have s1: "(\<Sum>j\<leftarrow>js. tgt (?vs1 ! j)) = (\<Sum>j\<leftarrow>js. tgt (vs ! j)) - tgt (vs ! i) + ?t"
        using sum_tgt_update_in [OF assms(1) i, of ?u] tu by simp
      have "0 \<le> r - ?a" by simp
      then have r1: "0 \<le> ?r1" by (rule roundToLamports_nonneg)
      have p1: "\<forall>j\<in>set js. j < length ?vs1" using Cons.prems(1) by simp
      have p2: "set rest \<subseteq> set js" using Cons.prems(2) by simp
      from Cons.IH [OF p1 p2 r1]
      have ih: "\<bar>(\<Sum>j\<leftarrow>js. tgt (fst ?d ! j)) + snd ?d - ((\<Sum>j\<leftarrow>js. tgt (?vs1 ! j)) + ?r1)\<bar>
            \<le> real (length rest) / 1000000000" and nn: "0 \<le> snd ?d"
        by simp_all
      have e1: "\<bar>?t - (tgt (vs ! i) + ?a)\<bar> \<le> 1 / 2000000000"
        by (rule roundToLamports_error)
      have e2: "\<bar>?r1 - (r - ?a)\<bar> \<le> 1 / 2000000000"
        by (rule roundToLamports_error)
      have len: "real (length (i # rest)) / 1000000000 = real (length rest) / 1000000000 + 1 / 1000000000"
        by (simp add: field_simps)
      have "\<bar>(\<Sum>j\<leftarrow>js. tgt (fst ?d ! j)) + snd ?d - ((\<Sum>j\<leftarrow>js. tgt (vs ! j)) + r)\<bar>
            \<le> real (length (i # rest)) / 1000000000"
        unfolding len using ih e1 e2 unfolding s1 by linarith
      with nn show ?thesis unfolding unfold by simp
    next
      case no: False
      have unfold: "distribute tpv (i # rest) vs r = distribute tpv rest vs r"
        using no False by (simp add: Let_def)
      have p2: "set rest \<subseteq> set js" using Cons.prems(2) by simp
      from False have r0: "0 \<le> r" by simp
      from Cons.IH [OF Cons.prems(1) p2 r0]
      have ih: "\<bar>(\<Sum>j\<leftarrow>js. tgt (fst (distribute tpv rest vs r) ! j))
                + snd (distribute tpv rest vs r) - ((\<Sum>j\<leftarrow>js. tgt (vs ! j)) + r)\<bar>
            \<le> real (length rest) / 1000000000"
        and nn: "0 \<le> snd (distribute tpv rest vs r)"
        by simp_all
      have "real (length rest) / 1000000000 \<le> real (length (i # rest)) / 1000000000"
        by simp
      with ih nn show ?thesis unfolding unfold by linarith
    qed
  qed
qed

lemma spread_sum:
  assumes "distinct js" and "\<forall>j\<in>set js. j < length vs" and "set is \<subseteq> set js"
  shows "\<bar>(\<Sum>j\<leftarrow>js. tgt (spread p is vs ! j)) - ((\<Sum>j\<leftarrow>js. tgt (vs ! j)) + p * real (length is))\<bar>
          \<le> real (length is) / 2000000000"
  using assms(2-3)
proof (induction "is" arbitrary: vs)
  case Nil
  then show ?case by simp
next
  case (Cons i rest)
  let ?t = "roundToLamports (tgt (vs ! i) + p)"
  let ?u = "(vs ! i)\<lparr>targetBalance := Some ?t\<rparr>"
  let ?vs1 = "vs[i := ?u]"
  from Cons.prems have i: "i \<in> set js" "i < length vs" by auto
  have tu: "tgt ?u = ?t" by (simp add: tgt_def)
  have s1: "(\<Sum>j\<leftarrow>js. tgt (?vs1 ! j)) = (\<Sum>j\<leftarrow>js. tgt (vs ! j)) - tgt (vs ! i) + ?t"
    using sum_tgt_update_in [OF assms(1) i, of ?u] tu by simp
  have p1: "\<forall>j\<in>set js. j < length ?vs1" using Cons.prems(1) by simp
  have p2: "set rest \<subseteq> set js" using Cons.prems(2) by simp
  from Cons.IH [OF p1 p2]
  have ih: "\<bar>(\<Sum>j\<leftarrow>js. tgt (spread p rest ?vs1 ! j))
              - ((\<Sum>j\<leftarrow>js. tgt (?vs1 ! j)) + p * real (length rest))\<bar>
            \<le> real (length rest) / 2000000000" .
  have e1: "\<bar>?t - (tgt (vs ! i) + p)\<bar> \<le> 1 / 2000000000"
    by (rule roundToLamports_error)
  have len: "real (length (i # rest)) / 2000000000 = real (length rest) / 2000000000 + 1 / 2000000000"
    "p * real (length (i # rest)) = p * real (length rest) + p"
    by (simp_all add: field_simps)
  have "\<bar>(\<Sum>j\<leftarrow>js. tgt (spread p rest ?vs1 ! j))
              - ((\<Sum>j\<leftarrow>js. tgt (vs ! j)) + p * real (length (i # rest)))\<bar>
            \<le> real (length (i # rest)) / 2000000000"
    unfolding len using ih e1 unfolding s1 by linarith
  then show ?case by simp
qed

lemma filter_as_indices:
  "filter P vs = map ((!) vs) (filter (\<lambda>i. P (vs ! i)) [0..<length vs])"
proof -
  have "filter P (map ((!) vs) [0..<length vs])
      = map ((!) vs) (filter (P \<circ> (!) vs) [0..<length vs])"
    by (rule filter_map)
  then show ?thesis by (simp add: map_nth o_def)
qed

lemma active_filter_indices:
  "filter (\<lambda>v. action v \<noteq> Some Remove) vs = map ((!) vs) (activeIndices vs)"
  unfolding activeIndices_def by (rule filter_as_indices)

lemma distinct_activeIndices: "distinct (activeIndices vs)"
  by (simp add: activeIndices_def)

lemma activeIndices_less: "j \<in> set (activeIndices vs) \<Longrightarrow> j < length vs"
  by (simp add: activeIndices_def)

lemma sum_activeValidators:
  "(\<Sum>j\<leftarrow>activeValidators vs. (g j :: real)) = (\<Sum>j\<leftarrow>activeIndices vs. g j)"
proof -
  have "(\<Sum>j\<leftarrow>activeValidators vs. g j) = sum g (set (activeValidators vs))"
    by (rule sum_list_distinct_conv_sum_set)
      (simp add: activeValidators_def distinct_activeIndices)
  also have "\<dots> = sum g (set (activeIndices vs))"
    by (simp add: activeValidators_def)
  also have "\<dots> = (\<Sum>j\<leftarrow>activeIndices vs. g j)"
    by (rule sum_list_distinct_conv_sum_set [symmetric]) (rule distinct_activeIndices)
  finally show ?thesis .
qed

lemma activeTargetSum_indices:
  "(\<Sum>v\<leftarrow>filter (\<lambda>v. action v \<noteq> Some Remove) vs. tgt v)
     = (\<Sum>j\<leftarrow>activeValidators vs. tgt (vs ! j))"
  by (simp add: active_filter_indices sum_activeValidators o_def)

lemma length_activeValidators:
  "length (activeValidators vs) = length (filter (\<lambda>v. action v \<noteq> Some Remove) vs)"
  by (simp add: active_filter_indices activeValidators_def)

lemma autoRebalance_actions:
  "list_all2 (\<lambda>v w. action w = action v) (validators s) (validators (snd (autoRebalance s)))"
  by (rule autoRebalance_rel) simp_all

lemma activeIndices_autoRebalance:
  "activeIndices (validators (snd (autoRebalance s))) = activeIndices (validators s)"
proof -
  let ?vs = "validators s" and ?ws = "validators (snd (autoRebalance s))"
  from autoRebalance_actions [of s]
  have len: "length ?ws = length ?vs"
    and act: "\<And>i. i < length ?vs \<Longrightarrow> action (?ws ! i) = action (?vs ! i)"
    by (simp_all add: list_all2_conv_all_nth)
  show ?thesis
    unfolding activeIndices_def len
    by (rule filter_cong) (simp_all add: act)
qed

lemma activeValidators_autoRebalance_set:
  "set (activeValidators (validators (snd (autoRebalance s))))
     = set (activeValidators (validators s))"
  by (simp add: activeValidators_def activeIndices_autoRebalance)

lemma sum_list_pos_member:
  assumes "\<forall>x\<in>set xs. 0 \<le> f x" and "x \<in> set xs" and "0 < f x"
  shows "0 < (\<Sum>y\<leftarrow>xs. (f y :: real))"
  using assms
proof (induction xs)
  case Nil
  then show ?case by simp
next
  case (Cons y ys)
  have nn: "0 \<le> (\<Sum>y\<leftarrow>ys. f y)"
    using Cons.prems(1) by (intro sum_list_nonneg) auto
  show ?case
  proof (cases "x = y")
    case True
    with Cons.prems(3) nn show ?thesis by simp
  next
    case False
    with Cons.prems have "x \<in> set ys" by simp
    with Cons.IH Cons.prems have "0 < (\<Sum>y\<leftarrow>ys. f y)" by simp
    moreover from Cons.prems(1) have "0 \<le> f y" by simp
    ultimately show ?thesis by simp
  qed
qed

lemma removedStake_spec: "removedStake s = spec_removedStake s"
  by (simp add: removedStake_def spec_removedStake_def foldl_add_sum_list)

lemma autoRebalance_main_branch:
  assumes "removedStake s \<noteq> 0" and "activeValidators (validators s) \<noteq> []"
  shows "fst (autoRebalance s) = Some Redistributed
    \<and> validators (snd (autoRebalance s)) =
      (let act = activeValidators (validators s);
           d = distribute
             ((foldl (\<lambda>t i. t + tgt (validators s ! i)) 0 act + removedStake s) / real (length act))
             act (validators s) (removedStake s)
       in if 0 < snd d then spread (snd d / real (length act)) act (fst d) else fst d)"
  using assms by (simp add: autoRebalance_def Let_def split: prod.splits)

section \<open>Rebalance conservation\<close>

text \<open>
  Claim C1 as stated fails: with five active validators at 100 and two lamports freed, the
  equal share is 0.4 lamports, every write rounds it away, and the active targets still
  sum to 500, which is 2e-9 short of 500.000000002.
\<close>

theorem rebalance_conservation_counterexample:
  "list_all (\<lambda>v. 0 \<le> activeBalance v) (validators stateFive)
   \<and> list_ex (\<lambda>v. action v \<noteq> Some Remove) (validators stateFive)
   \<and> list_ex (\<lambda>v. action v = Some Remove \<and> 0 < activeBalance v) (validators stateFive)
   \<and> spec_activeTargetSum stateFive = 500
   \<and> spec_removedStake stateFive = 2 / 1000000000
   \<and> spec_activeTargetSum (snd (autoRebalance stateFive)) = 500
   \<and> \<not> \<bar>spec_activeTargetSum (snd (autoRebalance stateFive))
          - (spec_activeTargetSum stateFive + spec_removedStake stateFive)\<bar> \<le> 1 / 1000000000"
  by (simp add: stateFive_def sampleState_def sampleValidator_def autoRebalance_def
      removedStake_def activeValidators_def activeIndices_def tgt_def Let_def
      spec_activeTargetSum_def spec_removedStake_def
      roundToLamports_def Math_round_def upt_rec [of _ "numeral _"])

text \<open>
  Claim C1, amended. For a state with no negative balance, at least one active validator
  and at least one validator marked \<open>remove\<close> with a positive balance, rebalance
  redistributes, and the sum of the active targets afterwards differs from the sum before
  plus the freed stake by at most 1.5e-9 for each active validator.
\<close>

theorem rebalance_conservation_bound:
  assumes nonneg: "list_all (\<lambda>v. 0 \<le> activeBalance v) (validators s)"
    and active: "list_ex (\<lambda>v. action v \<noteq> Some Remove) (validators s)"
    and removed: "list_ex (\<lambda>v. action v = Some Remove \<and> 0 < activeBalance v) (validators s)"
  shows "fst (autoRebalance s) = Some Redistributed
    \<and> \<bar>spec_activeTargetSum (snd (autoRebalance s))
          - (spec_activeTargetSum s + spec_removedStake s)\<bar>
        \<le> 3 * real (length (filter (\<lambda>v. action v \<noteq> Some Remove) (validators s))) / 2000000000"
proof -
  let ?vs = "validators s" and ?ws = "validators (snd (autoRebalance s))"
  let ?act = "activeValidators ?vs"
  let ?n = "real (length ?act)"
  let ?T = "\<lambda>xs. (\<Sum>j\<leftarrow>?act. tgt (xs ! j))"
  define tpv where "tpv = (foldl (\<lambda>t i. t + tgt (?vs ! i)) 0 ?act + removedStake s) / ?n"
  define d where "d = distribute tpv ?act ?vs (removedStake s)"
  from removed obtain x where x: "x \<in> set ?vs" "action x = Some Remove" "0 < activeBalance x"
    by (auto simp: list_ex_iff)
  have pos: "0 < removedStake s"
    unfolding removedStake_spec spec_removedStake_def
    using nonneg x by (intro sum_list_pos_member [where x = x]) (auto simp: list_all_iff)
  from active have ne: "?act \<noteq> []" by (simp add: activeValidators_Nil_iff)
  then have n: "0 < ?n" by simp
  from pos ne autoRebalance_main_branch [of s]
  have msg: "fst (autoRebalance s) = Some Redistributed"
    and ws: "?ws = (if 0 < snd d then spread (snd d / ?n) ?act (fst d) else fst d)"
    by (simp_all add: Let_def tpv_def d_def)
  have dist: "distinct ?act"
    by (simp add: activeValidators_def distinct_activeIndices)
  have less: "\<forall>j\<in>set ?act. j < length ?vs"
    by (simp add: activeValidators_def activeIndices_less)
  from pos have r0: "0 \<le> removedStake s" by simp
  from distribute_sum [OF dist less subset_refl r0, of tpv]
  have one: "\<bar>?T (fst d) + snd d - (?T ?vs + removedStake s)\<bar> \<le> ?n / 1000000000"
    and rem: "0 \<le> snd d"
    by (simp_all add: d_def)
  have bound: "\<bar>?T ?ws - (?T ?vs + removedStake s)\<bar> \<le> 3 * ?n / 2000000000"
  proof (cases "0 < snd d")
    case True
    have less1: "\<forall>j\<in>set ?act. j < length (fst d)"
      using less by (simp add: d_def length_distribute)
    from spread_sum [OF dist less1 subset_refl, of "snd d / ?n"]
    have "\<bar>?T (spread (snd d / ?n) ?act (fst d)) - (?T (fst d) + snd d / ?n * ?n)\<bar>
        \<le> ?n / 2000000000" .
    moreover from n have "snd d / ?n * ?n = snd d" by simp
    ultimately have two: "\<bar>?T ?ws - (?T (fst d) + snd d)\<bar> \<le> ?n / 2000000000"
      using True by (simp add: ws)
    have "?n / 1000000000 + ?n / 2000000000 = 3 * ?n / 2000000000" by simp
    with one two show ?thesis by linarith
  next
    case False
    with rem have "snd d = 0" by simp
    with one False have "\<bar>?T ?ws - (?T ?vs + removedStake s)\<bar> \<le> ?n / 1000000000"
      by (simp add: ws)
    moreover from n have "?n / 1000000000 \<le> 3 * ?n / 2000000000" by simp
    ultimately show ?thesis by linarith
  qed
  have before: "spec_activeTargetSum s = ?T ?vs"
    by (simp add: spec_activeTargetSum_def activeTargetSum_indices)
  have "spec_activeTargetSum (snd (autoRebalance s))
      = (\<Sum>j\<leftarrow>activeIndices ?ws. tgt (?ws ! j))"
    by (simp add: spec_activeTargetSum_def activeTargetSum_indices sum_activeValidators)
  also have "\<dots> = ?T ?ws"
    by (simp add: activeIndices_autoRebalance sum_activeValidators)
  finally have after: "spec_activeTargetSum (snd (autoRebalance s)) = ?T ?ws" .
  from bound msg show ?thesis
    by (simp add: before after removedStake_spec length_activeValidators)
qed

theorem rebalance_conservation_bound_witness:
  "list_all (\<lambda>v. 0 \<le> activeBalance v) (validators stateFill)
   \<and> list_ex (\<lambda>v. action v \<noteq> Some Remove) (validators stateFill)
   \<and> list_ex (\<lambda>v. action v = Some Remove \<and> 0 < activeBalance v) (validators stateFill)
   \<and> fst (autoRebalance stateFill) = Some Redistributed
   \<and> spec_activeTargetSum stateFill = 200
   \<and> spec_removedStake stateFill = 60
   \<and> \<bar>spec_activeTargetSum (snd (autoRebalance stateFill)) - 260\<bar> \<le> 9 / 2000000000"
  using rebalance_conservation_bound [of stateFill]
  by (simp add: stateFill_def sampleState_def sampleValidator_def tgt_def
      spec_activeTargetSum_def spec_removedStake_def)

lemma distribute_exhausted: "r \<le> 0 \<Longrightarrow> distribute tpv js vs r = (vs, r)"
  by (cases js) simp_all

lemma distribute_append:
  "distribute tpv (is @ js) vs r
     = distribute tpv js (fst (distribute tpv is vs r)) (snd (distribute tpv is vs r))"
proof (induction "is" arbitrary: vs r)
  case Nil
  show ?case by simp
next
  case (Cons i rest)
  show ?case
  proof (cases "r \<le> 0")
    case True
    then show ?thesis by (simp add: distribute_exhausted)
  next
    case False
    then show ?thesis by (simp add: Let_def Cons.IH)
  qed
qed

lemma sorted_wrt_activeIndices: "sorted_wrt (<) (activeIndices vs)"
  unfolding activeIndices_def by (rule sorted_wrt_filter) simp

lemma rebalance_fill_example:
  assumes tg: "map tgt (filter (\<lambda>v. action v \<noteq> Some Remove) (validators s)) = [0, 100, 100]"
    and rs: "removedStake s = 60"
  shows "map tgt (filter (\<lambda>v. action v \<noteq> Some Remove) (validators (snd (autoRebalance s))))
           = [60, 100, 100]"
proof -
  let ?vs = "validators s" and ?ws = "validators (snd (autoRebalance s))"
  let ?f = "\<lambda>i. tgt (?vs ! i)"
  from tg have m: "map ?f (activeIndices ?vs) = [0, 100, 100]"
    by (simp add: active_filter_indices o_def)
  then have "length (activeIndices ?vs) = 3"
    by (metis length_map length_Cons list.size(3) numeral_3_eq_3)
  then obtain a b c where idx: "activeIndices ?vs = [a, b, c]"
    by (auto simp: length_Suc_conv numeral_3_eq_3)
  with m have ta: "tgt (?vs ! a) = 0" and tb: "tgt (?vs ! b) = 100" and tc: "tgt (?vs ! c) = 100"
    by simp_all
  from distinct_activeIndices [of ?vs] idx have ne: "a \<noteq> b" "a \<noteq> c" by auto
  from activeIndices_less [of a ?vs] idx have la: "a < length ?vs" by simp
  have "sorted (map ?f [a, b, c])" by (simp add: ta tb tc)
  then have "sort_key ?f [a, b, c] = [a, b, c]" by (rule sort_key_id_if_sorted)
  then have act: "activeValidators ?vs = [a, b, c]"
    by (simp add: activeValidators_def idx)
  have r60: "roundToLamports 60 = 60" and r0: "roundToLamports 0 = 0"
    by (simp_all add: roundToLamports_def Math_round_def)
  from autoRebalance_main_branch [of s]
  have ws: "?ws = ?vs[a := (?vs ! a)\<lparr>targetBalance := Some 60\<rparr>]"
    by (simp add: rs act ta tb tc Let_def r60 r0)
  have "map tgt (filter (\<lambda>v. action v \<noteq> Some Remove) ?ws)
      = map (\<lambda>i. tgt (?ws ! i)) (activeIndices ?ws)"
    by (simp add: active_filter_indices o_def)
  also have "\<dots> = map (\<lambda>i. tgt (?ws ! i)) [a, b, c]"
    by (simp add: activeIndices_autoRebalance idx)
  also have "\<dots> = [60, 100, 100]"
  proof -
    have "tgt (?ws ! a) = 60" using la by (simp add: ws tgt_def)
    moreover have "?ws ! b = ?vs ! b" "?ws ! c = ?vs ! c" using ne by (simp_all add: ws)
    ultimately show ?thesis by (simp add: tb tc)
  qed
  finally show ?thesis .
qed

section \<open>Rebalance against the specification's walk\<close>

lemma map_tgt_update_notin:
  "i \<notin> set js \<Longrightarrow> map (\<lambda>j. tgt (vs[i := u] ! j)) js = map (\<lambda>j. tgt (vs ! j)) js"
  by (induction js) auto

lemma distribute_spec_walk:
  assumes "distinct js" and "\<forall>j\<in>set js. j < length vs"
  shows "map (\<lambda>j. tgt (fst (distribute tpv js vs r) ! j)) js
           = fst (spec_walk tpv r (map (\<lambda>j. tgt (vs ! j)) js))
       \<and> snd (distribute tpv js vs r) = snd (spec_walk tpv r (map (\<lambda>j. tgt (vs ! j)) js))"
  using assms
proof (induction js arbitrary: vs r)
  case Nil
  show ?case by simp
next
  case (Cons i rest)
  from Cons.prems have i: "i \<notin> set rest" "i < length vs" and d: "distinct rest" by simp_all
  show ?case
  proof (cases "r \<le> 0")
    case True
    then show ?thesis by simp
  next
    case False
    show ?thesis
    proof (cases "tgt (vs ! i) < tpv")
      case True
      let ?a = "min (tpv - tgt (vs ! i)) r"
      let ?t = "roundToLamports (tgt (vs ! i) + ?a)"
      let ?u = "(vs ! i)\<lparr>targetBalance := Some ?t\<rparr>"
      let ?vs1 = "vs[i := ?u]"
      let ?r1 = "roundToLamports (r - ?a)"
      have unfold: "distribute tpv (i # rest) vs r = distribute tpv rest ?vs1 ?r1"
        using True False by (simp add: Let_def)
      have p: "\<forall>j\<in>set rest. j < length ?vs1" using Cons.prems(2) by simp
      from Cons.IH [OF d p, of ?r1]
      have ih1: "map (\<lambda>j. tgt (fst (distribute tpv rest ?vs1 ?r1) ! j)) rest
                  = fst (spec_walk tpv ?r1 (map (\<lambda>j. tgt (?vs1 ! j)) rest))"
        and ih2: "snd (distribute tpv rest ?vs1 ?r1)
                  = snd (spec_walk tpv ?r1 (map (\<lambda>j. tgt (?vs1 ! j)) rest))"
        by simp_all
      have same: "map (\<lambda>j. tgt (?vs1 ! j)) rest = map (\<lambda>j. tgt (vs ! j)) rest"
        using i(1) by (rule map_tgt_update_notin)
      have "fst (distribute tpv rest ?vs1 ?r1) ! i = ?vs1 ! i"
        using i(1) by (rule distribute_untouched)
      then have hd: "tgt (fst (distribute tpv rest ?vs1 ?r1) ! i) = ?t"
        using i(2) by (simp add: tgt_def)
      show ?thesis
        unfolding unfold using True False hd ih1 ih2 by (simp add: same Let_def)
    next
      case no: False
      have unfold: "distribute tpv (i # rest) vs r = distribute tpv rest vs r"
        using no False by (simp add: Let_def)
      have p: "\<forall>j\<in>set rest. j < length vs" using Cons.prems(2) by simp
      from Cons.IH [OF d p, of r]
      have ih1: "map (\<lambda>j. tgt (fst (distribute tpv rest vs r) ! j)) rest
                  = fst (spec_walk tpv r (map (\<lambda>j. tgt (vs ! j)) rest))"
        and ih2: "snd (distribute tpv rest vs r)
                  = snd (spec_walk tpv r (map (\<lambda>j. tgt (vs ! j)) rest))"
        by simp_all
      have "fst (distribute tpv rest vs r) ! i = vs ! i"
        using i(1) by (rule distribute_untouched)
      then show ?thesis
        unfolding unfold using no False ih1 ih2 by (simp add: Let_def)
    qed
  qed
qed

lemma spread_targets:
  assumes "distinct js" and "\<forall>j\<in>set js. j < length vs"
  shows "map (\<lambda>j. tgt (spread p js vs ! j)) js
           = map (\<lambda>j. roundToLamports (tgt (vs ! j) + p)) js"
  using assms
proof (induction js arbitrary: vs)
  case Nil
  show ?case by simp
next
  case (Cons i rest)
  from Cons.prems have i: "i \<notin> set rest" "i < length vs" and d: "distinct rest" by simp_all
  let ?u = "(vs ! i)\<lparr>targetBalance := Some (roundToLamports (tgt (vs ! i) + p))\<rparr>"
  let ?vs1 = "vs[i := ?u]"
  have p: "\<forall>j\<in>set rest. j < length ?vs1" using Cons.prems(2) by simp
  from Cons.IH [OF d p]
  have ih: "map (\<lambda>j. tgt (spread p rest ?vs1 ! j)) rest
              = map (\<lambda>j. roundToLamports (tgt (?vs1 ! j) + p)) rest" .
  have same: "map (\<lambda>j. roundToLamports (tgt (?vs1 ! j) + p)) rest
              = map (\<lambda>j. roundToLamports (tgt (vs ! j) + p)) rest"
    using i(1) by (induction rest) auto
  have "spread p rest ?vs1 ! i = ?vs1 ! i" using i(1) by (rule spread_untouched)
  then have hd: "tgt (spread p rest ?vs1 ! i) = roundToLamports (tgt (vs ! i) + p)"
    using i(2) by (simp add: tgt_def)
  show ?case using hd ih same by simp
qed

lemma autoRebalance_spec_rebalance:
  assumes "removedStake s \<noteq> 0" and "activeValidators (validators s) \<noteq> []"
  shows "map (\<lambda>j. tgt (validators (snd (autoRebalance s)) ! j)) (activeValidators (validators s))
           = spec_rebalance (removedStake s)
               (map (\<lambda>j. tgt (validators s ! j)) (activeValidators (validators s)))"
proof -
  let ?vs = "validators s" and ?ws = "validators (snd (autoRebalance s))"
  let ?act = "activeValidators ?vs"
  let ?ts = "map (\<lambda>j. tgt (?vs ! j)) ?act"
  define tpv where "tpv = (foldl (\<lambda>t i. t + tgt (?vs ! i)) 0 ?act + removedStake s)
      / real (length ?act)"
  define d where "d = distribute tpv ?act ?vs (removedStake s)"
  have tpv: "tpv = (sum_list ?ts + removedStake s) / real (length ?ts)"
    by (simp add: tpv_def foldl_add_sum_list)
  from assms autoRebalance_main_branch [of s]
  have ws: "?ws = (if 0 < snd d then spread (snd d / real (length ?act)) ?act (fst d) else fst d)"
    by (simp add: Let_def tpv_def d_def)
  have dist: "distinct ?act"
    by (simp add: activeValidators_def distinct_activeIndices)
  have less: "\<forall>j\<in>set ?act. j < length ?vs"
    by (simp add: activeValidators_def activeIndices_less)
  from distribute_spec_walk [OF dist less, of tpv "removedStake s"]
  have w1: "map (\<lambda>j. tgt (fst d ! j)) ?act = fst (spec_walk tpv (removedStake s) ?ts)"
    and w2: "snd d = snd (spec_walk tpv (removedStake s) ?ts)"
    by (simp_all add: d_def)
  have less1: "\<forall>j\<in>set ?act. j < length (fst d)"
    using less by (simp add: d_def length_distribute)
  have "map (\<lambda>j. tgt (?ws ! j)) ?act
      = (if 0 < snd d
         then map (\<lambda>t. roundToLamports (t + snd d / real (length ?ts)))
                (map (\<lambda>j. tgt (fst d ! j)) ?act)
         else map (\<lambda>j. tgt (fst d ! j)) ?act)"
    using spread_targets [OF dist less1, of "snd d / real (length ?act)"]
    by (simp add: ws o_def)
  then show ?thesis
    unfolding spec_rebalance_def Let_def tpv [symmetric] w1 w2 by simp
qed

section \<open>Rebalance fill order\<close>

text \<open>
  Claim C8. Rebalance visits the existing validators that are not removed in ascending
  order of target, those of equal target in the order of their indices (the sort is
  stable): whenever it redistributes, the targets it leaves, read in that order, are the
  result of the specification's walk over the targets it found, read in that order. The
  first loop works through the order from the front, what it leaves of the pool after a
  prefix being what it starts the rest with, and touches nothing once the pool is used up.
  With active targets 0, 100 and 100 and 60 freed, the targets afterwards are 60, 100 and
  100: the lowest validator receives everything.
\<close>

theorem rebalance_fill_order:
  "sorted (map (\<lambda>i. tgt (vs ! i)) (activeValidators vs))
   \<and> distinct (activeValidators vs)
   \<and> set (activeValidators vs) = {i. i < length vs \<and> action (vs ! i) \<noteq> Some Remove}
   \<and> sorted_wrt (<) (activeIndices vs)
   \<and> filter (\<lambda>i. tgt (vs ! i) = k) (activeValidators vs)
       = filter (\<lambda>i. tgt (vs ! i) = k) (activeIndices vs)
   \<and> distribute tpv (ks @ js) vs r
       = distribute tpv js (fst (distribute tpv ks vs r)) (snd (distribute tpv ks vs r))
   \<and> (r \<le> 0 \<longrightarrow> distribute tpv js vs r = (vs, r))
   \<and> (removedStake s \<noteq> 0 \<and> activeValidators (validators s) \<noteq> [] \<longrightarrow>
       map (\<lambda>j. tgt (validators (snd (autoRebalance s)) ! j)) (activeValidators (validators s))
         = spec_rebalance (removedStake s)
             (map (\<lambda>j. tgt (validators s ! j)) (activeValidators (validators s))))
   \<and> (map tgt (filter (\<lambda>v. action v \<noteq> Some Remove) (validators s)) = [0, 100, 100]
        \<and> removedStake s = 60 \<longrightarrow>
       map tgt (filter (\<lambda>v. action v \<noteq> Some Remove) (validators (snd (autoRebalance s))))
         = [60, 100, 100])"
proof -
  have 1: "sorted (map (\<lambda>i. tgt (vs ! i)) (activeValidators vs))"
    by (simp add: activeValidators_def)
  have 2: "distinct (activeValidators vs)"
    by (simp add: activeValidators_def distinct_activeIndices)
  have 3: "filter (\<lambda>i. tgt (vs ! i) = k) (activeValidators vs)
       = filter (\<lambda>i. tgt (vs ! i) = k) (activeIndices vs)"
    unfolding activeValidators_def by (rule sort_key_stable)
  have 4: "r \<le> 0 \<longrightarrow> distribute tpv js vs r = (vs, r)"
    by (simp add: distribute_exhausted)
  have 5: "map tgt (filter (\<lambda>v. action v \<noteq> Some Remove) (validators s)) = [0, 100, 100]
        \<and> removedStake s = 60 \<longrightarrow>
       map tgt (filter (\<lambda>v. action v \<noteq> Some Remove) (validators (snd (autoRebalance s))))
         = [60, 100, 100]"
    using rebalance_fill_example [of s] by (intro impI) (elim conjE)
  have 6: "removedStake s \<noteq> 0 \<and> activeValidators (validators s) \<noteq> [] \<longrightarrow>
       map (\<lambda>j. tgt (validators (snd (autoRebalance s)) ! j)) (activeValidators (validators s))
         = spec_rebalance (removedStake s)
             (map (\<lambda>j. tgt (validators s ! j)) (activeValidators (validators s)))"
    using autoRebalance_spec_rebalance [of s] by (intro impI) (elim conjE)
  from 1 2 activeValidators_set [of vs] sorted_wrt_activeIndices [of vs] 3
    distribute_append [of tpv ks js vs r] 4 6 5
  show ?thesis by (intro conjI) assumption+
qed

theorem rebalance_fill_order_witness:
  "(0::real) \<le> 0
   \<and> distribute 5 [0, 1] (validators stateFill) 0 = (validators stateFill, 0)
   \<and> map tgt (filter (\<lambda>v. action v \<noteq> Some Remove) (validators stateFill)) = [0, 100, 100]
   \<and> removedStake stateFill = 60
   \<and> map tgt (filter (\<lambda>v. action v \<noteq> Some Remove) (validators (snd (autoRebalance stateFill))))
       = [60, 100, 100]
   \<and> activeValidators (validators stateFill) = [0, 2, 3]
   \<and> removedStake stateDescending = 50
   \<and> activeValidators (validators stateDescending) = [2, 1, 0]
   \<and> map (\<lambda>j. tgt (validators stateDescending ! j)) [2, 1, 0] = [0, 10, 100]
   \<and> spec_rebalance 50 [0, 10, 100] = [50, 10, 100]
   \<and> map (\<lambda>j. tgt (validators (snd (autoRebalance stateDescending)) ! j)) [2, 1, 0]
       = [50, 10, 100]"
proof -
  note fill = rebalance_fill_order [where s = stateFill and r = 0 and tpv = 5
      and js = "[0, 1]" and vs = "validators stateFill" and k = 100 and ks = "[]"]
  note desc = rebalance_fill_order [where s = stateDescending and r = 0 and tpv = 5
      and js = "[0, 1]" and vs = "validators stateDescending" and k = 100 and ks = "[]"]
  note exhausted = fill [THEN conjunct2, THEN conjunct2, THEN conjunct2, THEN conjunct2,
      THEN conjunct2, THEN conjunct2, THEN conjunct1]
  note example = fill [THEN conjunct2, THEN conjunct2, THEN conjunct2, THEN conjunct2,
      THEN conjunct2, THEN conjunct2, THEN conjunct2, THEN conjunct2]
  note refine = desc [THEN conjunct2, THEN conjunct2, THEN conjunct2, THEN conjunct2,
      THEN conjunct2, THEN conjunct2, THEN conjunct2, THEN conjunct1]
  have e: "distribute 5 [0, 1] (validators stateFill) 0 = (validators stateFill, 0)"
    using exhausted by simp
  have f1: "map tgt (filter (\<lambda>v. action v \<noteq> Some Remove) (validators stateFill)) = [0, 100, 100]"
    by (simp add: stateFill_def sampleState_def sampleValidator_def tgt_def)
  have f2: "removedStake stateFill = 60"
    by (simp add: stateFill_def sampleState_def sampleValidator_def removedStake_def)
  have f3: "map tgt (filter (\<lambda>v. action v \<noteq> Some Remove)
        (validators (snd (autoRebalance stateFill)))) = [60, 100, 100]"
    using example f1 f2 by blast
  have f4: "activeValidators (validators stateFill) = [0, 2, 3]"
    by (simp add: stateFill_def sampleState_def sampleValidator_def tgt_def
        activeValidators_def activeIndices_def upt_rec [of _ "numeral _"])
  have d1: "removedStake stateDescending = 50"
    by (simp add: stateDescending_def sampleState_def sampleValidator_def removedStake_def)
  have d2: "activeValidators (validators stateDescending) = [2, 1, 0]"
    by (simp add: stateDescending_def sampleState_def sampleValidator_def tgt_def
        activeValidators_def activeIndices_def upt_rec [of _ "numeral _"])
  have d3: "map (\<lambda>j. tgt (validators stateDescending ! j)) [2, 1, 0] = [0, 10, 100]"
    by (simp add: stateDescending_def sampleState_def sampleValidator_def tgt_def)
  have d4: "spec_rebalance 50 [0, 10, 100] = [50, 10, 100]"
    by (simp add: spec_rebalance_def Let_def roundToLamports_def Math_round_def)
  have "removedStake stateDescending \<noteq> 0 \<and> activeValidators (validators stateDescending) \<noteq> []"
    by (simp add: d1 d2)
  with refine
  have "map (\<lambda>j. tgt (validators (snd (autoRebalance stateDescending)) ! j))
          (activeValidators (validators stateDescending))
        = spec_rebalance (removedStake stateDescending)
            (map (\<lambda>j. tgt (validators stateDescending ! j))
              (activeValidators (validators stateDescending)))"
    by blast
  then have d5: "map (\<lambda>j. tgt (validators (snd (autoRebalance stateDescending)) ! j)) [2, 1, 0]
       = [50, 10, 100]"
    unfolding d1 d2 d3 d4 .
  from e f1 f2 f3 f4 d1 d2 d3 d4 d5 show ?thesis by (intro conjI) simp_all
qed

section \<open>Invariant I2 and \<open>setTarget\<close>\<close>

text \<open>
  Every command but \<open>setTarget\<close> keeps I2: the ones that write a target either
  refuse a removed record or write the target together with the action, and rebalance
  leaves removed records alone.
\<close>

lemma I2_iff:
  "I2 s \<longleftrightarrow> (\<forall>j<length (validators s).
      action (validators s ! j) = Some Remove \<longrightarrow> targetBalance (validators s ! j) = Some 0)"
  by (auto simp: I2_def list_all_iff in_set_conv_nth)

lemma I2_update:
  assumes "I2 s" and "action u = Some Remove \<longrightarrow> targetBalance u = Some 0"
  shows "I2 (s\<lparr>validators := (validators s)[k := u]\<rparr>)"
  unfolding I2_iff
proof (intro allI impI)
  fix j
  let ?ws = "validators (s\<lparr>validators := (validators s)[k := u]\<rparr>)"
  assume j: "j < length ?ws" and rm: "action (?ws ! j) = Some Remove"
  show "targetBalance (?ws ! j) = Some 0"
  proof (cases "j = k")
    case True
    with j rm assms(2) show ?thesis by simp
  next
    case False
    with j rm assms(1) show ?thesis by (simp add: I2_iff)
  qed
qed

lemma I2_newValidators: "I2 (s\<lparr>newValidators := nvs\<rparr>) = I2 s"
  by (simp add: I2_def)

lemma I2_preserved_by_other_commands:
  assumes "I2 s"
  shows "I2 (snd (markRemoved i s))" and "I2 (snd (undoRemoved i s))"
    and "I2 (snd (addToTarget i amt s))" and "I2 (snd (subtractFromTarget i amt s))"
    and "I2 (snd (addValidator V N a s))" and "I2 (snd (autoRebalance s))"
proof -
  show "I2 (snd (markRemoved i s))"
    using assms by (simp add: markRemoved_def Let_def I2_update)
  show "I2 (snd (undoRemoved i s))"
    using assms by (simp add: undoRemoved_def Let_def I2_update)
  show "I2 (snd (addToTarget i amt s))"
    using assms by (simp add: addToTarget_def Let_def I2_update I2_newValidators)
  show "I2 (snd (subtractFromTarget i amt s))"
    using assms by (simp add: subtractFromTarget_def Let_def I2_update I2_newValidators)
  show "I2 (snd (addValidator V N a s))"
    using assms by (simp add: addValidator_def Let_def I2_newValidators)
  show "I2 (snd (autoRebalance s))"
    unfolding I2_iff
  proof (intro allI impI)
    fix j
    let ?vs = "validators s" and ?ws = "validators (snd (autoRebalance s))"
    assume j: "j < length ?ws" and rm: "action (?ws ! j) = Some Remove"
    from autoRebalance_actions [of s]
    have len: "length ?ws = length ?vs"
      and act: "\<And>i. i < length ?vs \<Longrightarrow> action (?ws ! i) = action (?vs ! i)"
      by (simp_all add: list_all2_conv_all_nth)
    from j rm len act have rm0: "action (?vs ! j) = Some Remove" by simp
    then have "j \<notin> set (activeValidators ?vs)" by (simp add: activeValidators_set)
    then have "?ws ! j = ?vs ! j" by (rule autoRebalance_untouched)
    moreover from assms j len rm0 have "targetBalance (?vs ! j) = Some 0"
      by (simp add: I2_iff)
    ultimately show "targetBalance (?ws ! j) = Some 0" by simp
  qed
qed

text \<open>
  Claim C3 says that every command preserves I2. \<open>setTarget\<close> does not: after
  \<open>markRemoved\<close> on the first validator (I2 holds), setting its target to 5 is accepted
  without a message, the record keeps the action \<open>remove\<close>, and I2 no longer holds.
  \<open>addToTarget\<close> refuses the same record.
\<close>

theorem setTarget_breaks_I2:
  "I2 (snd (markRemoved 0 stateAB))
   \<and> fst (setTarget 0 (Some 5) (snd (markRemoved 0 stateAB))) = None
   \<and> action (validators (snd (setTarget 0 (Some 5) (snd (markRemoved 0 stateAB)))) ! 0)
       = Some Remove
   \<and> targetBalance (validators (snd (setTarget 0 (Some 5) (snd (markRemoved 0 stateAB)))) ! 0)
       = Some 5
   \<and> \<not> I2 (snd (setTarget 0 (Some 5) (snd (markRemoved 0 stateAB))))
   \<and> addToTarget 0 (Some 5) (snd (markRemoved 0 stateAB))
       = (Some CannotAddToRemoved, snd (markRemoved 0 stateAB))"
  by (simp add: I2_def stateAB_def sampleState_def sampleValidator_def markRemoved_def
      setTarget_def addToTarget_def lookupIdx_def)

end
